theory Spec2Isabelle
  imports Complex_Main "HOL-Library.Extended_Nat" "HOL-Library.AList"
begin


section \<open>The Starling client\<close>

text \<open>
  A shallow embedding of the Starling WebSocket client. State is passed explicitly: each
  function of the model takes the state of the object it belongs to and returns the new
  one, with the value returned or the error thrown. What the code takes from outside is an
  argument: the clock (\<open>now\<close>), the ids drawn for requests, what the socket does with a
  write and how the server answers a request. The sources hold some classes in more than
  one version; the model follows
  \<^item> \<open>Starling\<close> in the version that holds a \<open>MessageBuffer\<close>, a \<open>RequestsManager\<close> and a
    \<open>MethodsManager\<close> (src/unnamed/part_004),
  \<^item> \<open>MessageBuffer\<close> (message-buffer.js, src/unnamed/part_003),
  \<^item> \<open>RequestsManager\<close> and \<open>Request\<close> (requests.manager.js, src/unnamed/part_002),
  \<^item> \<open>MethodsManager\<close> (src/src/managers/methods.manager.js),
  \<^item> \<open>StateManager\<close> (src/src/managers/state.js),
  \<^item> \<open>ReconnectionManager\<close> (src/src/managers/reconnection.js, the first of the two
    versions in that file).
\<close>

section \<open>JavaScript values\<close>

text \<open>
  The values that arrive in parsed JSON frames and in responses. Reading a property of
  \<open>undefined\<close> or \<open>null\<close> throws a \<open>TypeError\<close>; reading a property that an object does
  not have, or one of the properties read here (\<open>type\<close>, \<open>topic\<close>, \<open>data\<close>, \<open>token\<close>,
  \<open>requestId\<close>, \<open>notification\<close>, \<open>message\<close>) of a number, a boolean, a string or an array, gives \<open>undefined\<close>. In an object the last
  entry of a key is its value, as \<open>JSON.parse\<close> has it.
\<close>

datatype js =
    JUndefined
  | JNull
  | JBool bool
  | JNum real
  | JStr string
  | JArr "js list"
  | JObj "(string \<times> js) list"

datatype js_error = TypeError

fun js_get :: "js \<Rightarrow> string \<Rightarrow> js_error + js" where
  "js_get JUndefined k = Inl TypeError"
| "js_get JNull k = Inl TypeError"
| "js_get (JObj kvs) k = Inr (case map_of (rev kvs) k of None \<Rightarrow> JUndefined | Some v \<Rightarrow> v)"
| "js_get v k = Inr JUndefined"


text \<open>
  The result of a division of numbers. Durations and lengths are integers far below
  \<open>2\<^sup>5\<^sup>3\<close>, so the operands are taken as reals; what the model keeps of the floating
  point division is the quotient by zero: \<open>0 / 0\<close> is \<open>NaN\<close>, and \<open>x / 0\<close> is \<open>Infinity\<close> or
  \<open>-Infinity\<close> with the sign of \<open>x\<close>.
\<close>

datatype number = Finite real | PosInfinity | NegInfinity | NaN

definition js_divide :: "real \<Rightarrow> real \<Rightarrow> number" where
  "js_divide a b =
     (if b = 0 then (if a = 0 then NaN else if 0 < a then PosInfinity else NegInfinity)
      else Finite (a / b))"


section \<open>The host's WebSocket and the event emitter\<close>

text \<open>
  The WebSocket object and the Pulse event emitter are provided by the host. Of the socket
  the client reads \<open>readyState\<close> and calls \<open>send\<close>; of the emitter it calls \<open>emit\<close>.
  A socket is modelled by its ready state, the frames it has accepted so far (\<open>wire\<close>) and
  a schedule of faults: the outcome of the coming calls of \<open>ws.send\<close>, \<open>True\<close> for a call
  that throws. A call beyond the schedule succeeds. An emitter is modelled by the list of
  the events emitted on it, oldest first.
\<close>

datatype ready_state = CONNECTING | OPEN | CLOSING | CLOSED

text \<open>
  What is handed to \<open>ws.send\<close>: a string, an \<open>ArrayBuffer\<close>, or the string that
  \<open>JSON.stringify\<close> gives for a value (\<open>Json\<close>).
\<close>

datatype wire_data = Text string | Binary "nat list" | Json js

record socket =
  readyState :: ready_state
  wire :: "wire_data list"
  faults :: "bool list"

text \<open>\<open>ws.send(message)\<close>: the flag tells whether the call returned (\<open>True\<close>) or threw.\<close>

definition ws_send :: "wire_data \<Rightarrow> socket \<Rightarrow> bool \<times> socket" where
  "ws_send m s =
     (case faults s of
        [] \<Rightarrow> (True, s\<lparr>wire := wire s @ [m]\<rparr>)
      | f # fs \<Rightarrow>
          if f then (False, s\<lparr>faults := fs\<rparr>)
          else (True, s\<lparr>wire := wire s @ [m], faults := fs\<rparr>))"

text \<open>
  The events of \<open>starling.events\<close> that the modelled functions emit:
  \<open>buffer:full\<close>, \<open>buffer:added\<close> (size), \<open>buffer:flushed\<close> (sent, remaining),
  \<open>buffer:cleared\<close> (cleared), \<open>starling:open\<close> and \<open>message:\<close>\<^emph>\<open>type\<close> (type, message).
\<close>

datatype event =
    BufferFull
  | BufferAdded nat
  | BufferFlushed nat nat
  | BufferCleared nat
  | StarlingOpen
  | MessageReceived string js

section \<open>MessageBuffer and the send path of Starling\<close>

record BufferedMessage =
  content :: wire_data
  timestamp :: int
  attempts :: nat

record MessageBuffer =
  messages :: "BufferedMessage list"
  maxSize :: nat

text \<open>
  A \<open>Request\<close> (requests.manager.js): \<open>req_id\<close> is its \<open>id\<close>, \<open>req_method\<close> its
  \<open>method\<close>, \<open>req_timeout\<close> and \<open>req_retry\<close> its \<open>options\<close>, \<open>req_timestamp\<close> its
  \<open>timestamp\<close>. Its timer and the two functions of its promise belong to the runtime and
  are kept in the \<open>starling\<close> record below, under the id of the request.
\<close>

record Request =
  req_id :: string
  req_method :: string
  payload :: js
  req_timeout :: nat
  req_retry :: bool
  req_timestamp :: int

text \<open>
  \<open>RequestsManager.pending\<close> is a \<open>Map\<close>: it keeps its keys in insertion order, each once.
\<close>

record RequestsManager =
  pending :: "(string \<times> Request) list"

text \<open>How the promise of a request was settled: the argument of \<open>resolve\<close> or of \<open>reject\<close>.\<close>

datatype rejection =
    ResponseError js
  | REQUEST_TIMEOUT string nat
  | REQUEST_CANCELLED string

datatype settlement = Resolved js | Rejected rejection

text \<open>
  The part of a \<open>Starling\<close> instance that the modelled functions read and write. \<open>events\<close>, \<open>topics\<close> and \<open>hooks\<close> are the three emitters, each the list of the
  calls of its \<open>emit\<close>. The last two fields are the runtime's: \<open>timers\<close> holds, under the id
  of its request, every timeout armed by \<open>Request.execute\<close> and neither cleared nor fired;
  \<open>settled\<close> lists the calls of the \<open>resolve\<close> and \<open>reject\<close> functions of the requests'
  promises, oldest first, each with the id of its request.
\<close>

record starling =
  ws :: "socket option"
  messageBuffer :: MessageBuffer
  requests :: RequestsManager
  events :: "event list"
  topics :: "(js \<times> js) list"
  hooks :: "(string \<times> js) list"
  recoveryToken :: js
  timers :: "string \<rightharpoonup> Request"
  settled :: "(string \<times> settlement) list"

text \<open>The constructor of \<open>MessageBuffer\<close>: no messages, \<open>maxSize = 1000\<close>.\<close>

definition MessageBuffer_new :: MessageBuffer where
  "MessageBuffer_new = \<lparr>messages = [], maxSize = 1000\<rparr>"

text \<open>The constructor of \<open>Starling\<close>: no socket, a new buffer, no pending request, no token.\<close>

definition Starling_new :: starling where
  "Starling_new =
     \<lparr>ws = None, messageBuffer = MessageBuffer_new, requests = \<lparr>pending = []\<rparr>,
      events = [], topics = [], hooks = [], recoveryToken = JNull,
      timers = Map.empty, settled = []\<rparr>"

definition emit :: "event \<Rightarrow> starling \<Rightarrow> starling" where
  "emit e st = st\<lparr>events := events st @ [e]\<rparr>"

text \<open>\<open>get connected()\<close>: \<open>this.ws?.readyState === WebSocket.OPEN\<close>.\<close>

definition connected :: "starling \<Rightarrow> bool" where
  "connected st = (case ws st of None \<Rightarrow> False | Some s \<Rightarrow> readyState s = OPEN)"

text \<open>\<open>get isFull()\<close>: \<open>this.messages.length >= this.maxSize\<close>.\<close>

definition isFull :: "MessageBuffer \<Rightarrow> bool" where
  "isFull b = (maxSize b \<le> length (messages b))"

text \<open>
  \<open>MessageBuffer.add(message)\<close>. \<open>now\<close> is the value of \<open>Date.now()\<close> at the call.
  \<open>Array.prototype.shift\<close> removes the first element and leaves an empty array empty,
  which is what \<open>tl\<close> does. The result is the returned boolean and the new state.
\<close>

definition add :: "int \<Rightarrow> wire_data \<Rightarrow> starling \<Rightarrow> bool \<times> starling" where
  "add now message st =
     (let st1 = (if isFull (messageBuffer st)
                 then (emit BufferFull st)
                        \<lparr>messageBuffer := (messageBuffer st)\<lparr>messages := tl (messages (messageBuffer st))\<rparr>\<rparr>
                 else st);
          b2 = (messageBuffer st1)
                 \<lparr>messages := messages (messageBuffer st1) @
                    [\<lparr>content = message, timestamp = now, attempts = 0\<rparr>]\<rparr>;
          st2 = st1\<lparr>messageBuffer := b2\<rparr>
      in (True, emit (BufferAdded (length (messages b2))) st2))"

text \<open>
  The loop of \<open>flush\<close> over \<open>this.messages\<close>, with its two accumulators \<open>remaining\<close> and
  \<open>sent\<close>. A message whose \<open>ws.send\<close> threw is pushed on \<open>remaining\<close> unchanged; a
  message that was sent has its \<open>attempts\<close> incremented and is not kept.
\<close>

fun flush_loop ::
  "BufferedMessage list \<Rightarrow> BufferedMessage list \<Rightarrow> nat \<Rightarrow> socket
     \<Rightarrow> BufferedMessage list \<times> nat \<times> socket" where
  "flush_loop [] remaining sent s = (remaining, sent, s)"
| "flush_loop (m # ms) remaining sent s =
     (case ws_send (content m) s of
        (True, s') \<Rightarrow> flush_loop ms remaining (Suc sent) s'
      | (False, s') \<Rightarrow> flush_loop ms (remaining @ [m]) sent s')"

definition flush :: "starling \<Rightarrow> starling" where
  "flush st =
     (if \<not> connected st then st
      else case ws st of
        None \<Rightarrow> st
      | Some s \<Rightarrow>
          (case flush_loop (messages (messageBuffer st)) [] 0 s of
             (remaining, sent, s') \<Rightarrow>
               let st1 = st\<lparr>ws := Some s',
                            messageBuffer := (messageBuffer st)\<lparr>messages := remaining\<rparr>\<rparr>
               in if 0 < sent then emit (BufferFlushed sent (length remaining)) st1 else st1))"

definition clear :: "starling \<Rightarrow> starling" where
  "clear st =
     (let size = length (messages (messageBuffer st));
          st1 = st\<lparr>messageBuffer := (messageBuffer st)\<lparr>messages := []\<rparr>\<rparr>
      in if 0 < size then emit (BufferCleared size) st1 else st1)"

text \<open>
  \<open>Starling.send(message)\<close>: buffered when not connected; written to the socket
  otherwise, and buffered when that write throws.
\<close>

definition send :: "int \<Rightarrow> wire_data \<Rightarrow> starling \<Rightarrow> bool \<times> starling" where
  "send now message st =
     (if \<not> connected st then add now message st
      else case ws st of
        None \<Rightarrow> add now message st
      | Some s \<Rightarrow>
          (case ws_send message s of
             (True, s') \<Rightarrow> (True, st\<lparr>ws := Some s'\<rparr>)
           | (False, s') \<Rightarrow> add now message (st\<lparr>ws := Some s'\<rparr>)))"

text \<open>
  The handler that \<open>connect()\<close> installs as \<open>ws.onopen\<close>: it emits \<open>starling:open\<close> and
  flushes the buffer (and then resolves the promise of \<open>connect()\<close>).
\<close>

definition onopen :: "starling \<Rightarrow> starling" where
  "onopen st = flush (emit StarlingOpen st)"

text \<open>A sequence of calls, each with the clock value it sees.\<close>

fun add_all :: "(int \<times> wire_data) list \<Rightarrow> starling \<Rightarrow> starling" where
  "add_all [] st = st"
| "add_all ((now, message) # fs) st = add_all fs (snd (add now message st))"

fun send_all :: "(int \<times> wire_data) list \<Rightarrow> starling \<Rightarrow> starling" where
  "send_all [] st = st"
| "send_all ((now, message) # fs) st = send_all fs (snd (send now message st))"

text \<open>The operations of the buffer, for statements about every sequence of them.\<close>

datatype buffer_op = Add int wire_data | Flush | Clear

fun buffer_step :: "buffer_op \<Rightarrow> starling \<Rightarrow> starling" where
  "buffer_step (Add now message) st = snd (add now message st)"
| "buffer_step Flush st = flush st"
| "buffer_step Clear st = clear st"

fun buffer_run :: "buffer_op list \<Rightarrow> starling \<Rightarrow> starling" where
  "buffer_run [] st = st"
| "buffer_run (x # xs) st = buffer_run xs (buffer_step x st)"

text \<open>The frames a buffer holds, oldest first.\<close>

definition retained :: "starling \<Rightarrow> wire_data list" where
  "retained st = map content (messages (messageBuffer st))"

section \<open>RequestsManager and Request\<close>

text \<open>
  A validated frame of type \<open>response\<close>, as \<open>handleJsonMessage\<close> passes it to
  \<open>requests.handleResponse\<close>; an absent \<open>data\<close> or \<open>error\<close> is \<open>undefined\<close>.
\<close>

record response =
  requestId :: string
  success :: bool
  data :: js
  error :: js

text \<open>The options given to \<open>request\<close>; the constructor of \<open>Request\<close> fills in 30000 and true.\<close>

record RequestOptions =
  opt_timeout :: "nat option"
  opt_retry :: "bool option"

text \<open>\<open>createStandardMessage(type, data)\<close>, with \<open>now\<close> for \<open>Date.now()\<close>.\<close>

definition createStandardMessage :: "string \<Rightarrow> (string \<times> js) list \<Rightarrow> int \<Rightarrow> js" where
  "createStandardMessage ty entries now =
     JObj ([(''protocol'', JStr ''helios-starling''), (''version'', JStr ''1.0.0''),
            (''timestamp'', JNum (of_int now)), (''type'', JStr ty)] @ entries)"

text \<open>
  \<open>Starling.json\<close> and \<open>Starling.standard\<close>. \<open>JSON.stringify\<close> does not throw on a value of
  type \<open>js\<close>, and \<open>send\<close> catches what \<open>ws.send\<close> throws, so the \<open>catch\<close> of \<open>json\<close> is
  not reached.
\<close>

definition json :: "int \<Rightarrow> js \<Rightarrow> starling \<Rightarrow> bool \<times> starling" where
  "json now message st = send now (Json message) st"

definition standard :: "int \<Rightarrow> string \<Rightarrow> (string \<times> js) list \<Rightarrow> starling \<Rightarrow> bool \<times> starling" where
  "standard now ty entries st = json now (createStandardMessage ty entries now) st"

text \<open>\<open>RequestsManager.remove(request)\<close>: \<open>this.pending.delete(request.id)\<close>.\<close>

definition requests_remove :: "Request \<Rightarrow> starling \<Rightarrow> starling" where
  "requests_remove r st =
     st\<lparr>requests := (requests st)\<lparr>pending := AList.delete (req_id r) (pending (requests st))\<rparr>\<rparr>"

text \<open>\<open>clearTimeout(this.timeoutId)\<close>, and a call of \<open>this.resolve\<close> or \<open>this.reject\<close>.\<close>

definition clearTimeout :: "Request \<Rightarrow> starling \<Rightarrow> starling" where
  "clearTimeout r st = st\<lparr>timers := (timers st)(req_id r := None)\<rparr>"

definition settle :: "Request \<Rightarrow> settlement \<Rightarrow> starling \<Rightarrow> starling" where
  "settle r s st = st\<lparr>settled := settled st @ [(req_id r, s)]\<rparr>"

text \<open>
  \<open>Starling.request(method, payload, options)\<close>: \<open>requests.create\<close>, then
  \<open>request.execute()\<close>, in one turn. \<open>i\<close> is the id drawn by \<open>crypto.randomUUID()\<close>.
  \<open>create\<close> stores the request in \<open>pending\<close>; \<open>execute\<close> arms the timeout and sends the
  request frame.
\<close>

definition request ::
  "string \<Rightarrow> int \<Rightarrow> string \<Rightarrow> js \<Rightarrow> RequestOptions \<Rightarrow> starling \<Rightarrow> starling" where
  "request i now m p opts st =
     (let r = \<lparr>req_id = i, req_method = m, payload = p,
                req_timeout = (case opt_timeout opts of None \<Rightarrow> 30000 | Some t \<Rightarrow> t),
                req_retry = (case opt_retry opts of None \<Rightarrow> True | Some b \<Rightarrow> b),
                req_timestamp = now\<rparr>;
          st1 = st\<lparr>requests := (requests st)\<lparr>pending := AList.update i r (pending (requests st))\<rparr>\<rparr>;
          st2 = st1\<lparr>timers := (timers st1)(i \<mapsto> r)\<rparr>
      in snd (standard now ''request''
                [(''requestId'', JStr i), (''method'', JStr m), (''payload'', p),
                 (''options'', JObj [(''timeout'', JNum (of_nat (req_timeout r))),
                                     (''retry'', JBool (req_retry r))])]
                st2))"

text \<open>\<open>Request.handleResponse(response)\<close>.\<close>

definition Request_handleResponse :: "Request \<Rightarrow> response \<Rightarrow> starling \<Rightarrow> starling" where
  "Request_handleResponse r resp st =
     (let st1 = clearTimeout r st
      in if success resp then settle r (Resolved (data resp)) st1
         else settle r (Rejected (ResponseError (error resp))) st1)"

text \<open>\<open>Request.handleTimeout()\<close>, the callback of the timeout armed by \<open>execute\<close>.\<close>

definition handleTimeout :: "Request \<Rightarrow> starling \<Rightarrow> starling" where
  "handleTimeout r st =
     requests_remove r (settle r (Rejected (REQUEST_TIMEOUT (req_method r) (req_timeout r))) st)"

text \<open>\<open>Request.cancel(reason)\<close>.\<close>

definition cancel :: "string \<Rightarrow> Request \<Rightarrow> starling \<Rightarrow> starling" where
  "cancel reason r st =
     requests_remove r (settle r (Rejected (REQUEST_CANCELLED reason)) (clearTimeout r st))"

text \<open>\<open>RequestsManager.handleResponse(response)\<close>.\<close>

definition handleResponse :: "response \<Rightarrow> starling \<Rightarrow> starling" where
  "handleResponse resp st =
     (case map_of (pending (requests st)) (requestId resp) of
        None \<Rightarrow> st
      | Some r \<Rightarrow> requests_remove r (Request_handleResponse r resp st))"

text \<open>
  \<open>RequestsManager.cancelAll(reason)\<close>: every pending request is cancelled, in the order of
  the \<open>Map\<close>, which is then cleared.
\<close>

definition cancelAll :: "string \<Rightarrow> starling \<Rightarrow> starling" where
  "cancelAll reason st =
     (let st1 = fold (cancel reason) (map snd (pending (requests st))) st
      in st1\<lparr>requests := (requests st1)\<lparr>pending := []\<rparr>\<rparr>)"

text \<open>
  The runtime runs the callback of a timeout that is still armed, once: the timeout of the
  request with id \<open>i\<close> fires.
\<close>

definition timer_fires :: "string \<Rightarrow> starling \<Rightarrow> starling" where
  "timer_fires i st =
     (case timers st i of
        None \<Rightarrow> st
      | Some r \<Rightarrow> handleTimeout r (st\<lparr>timers := (timers st)(i := None)\<rparr>))"

text \<open>
  What can happen to the requests of a client: the application calls \<open>request\<close>, a response
  frame arrives, a timeout fires, or the requests are cancelled (\<open>disconnect\<close> does that).
\<close>

datatype rpc_event =
    Call string int string js RequestOptions
  | Reply response
  | TimerFires string
  | CancelAll string

fun rpc_step :: "rpc_event \<Rightarrow> starling \<Rightarrow> starling" where
  "rpc_step (Call i now m p opts) st = request i now m p opts st"
| "rpc_step (Reply resp) st = handleResponse resp st"
| "rpc_step (TimerFires i) st = timer_fires i st"
| "rpc_step (CancelAll reason) st = cancelAll reason st"

fun rpc_run :: "rpc_event list \<Rightarrow> starling \<Rightarrow> starling" where
  "rpc_run [] st = st"
| "rpc_run (e # es) st = rpc_run es (rpc_step e st)"

text \<open>The ids drawn for the calls of \<open>request\<close> in a sequence of events.\<close>

fun drawn_ids :: "rpc_event list \<Rightarrow> string list" where
  "drawn_ids [] = []"
| "drawn_ids (Call i now m p opts # es) = i # drawn_ids es"
| "drawn_ids (e # es) = drawn_ids es"

text \<open>How often the promise of the request with id \<open>i\<close> has been settled.\<close>

definition settlements :: "string \<Rightarrow> starling \<Rightarrow> nat" where
  "settlements i st = length (filter (\<lambda>x. fst x = i) (settled st))"

text \<open>
  The invariant of the request table, for the ids \<open>ids\<close> drawn so far: the keys of
  \<open>pending\<close> are distinct and each is the id of its request; an armed timeout belongs to a
  pending request; the promise of a pending request has not been settled, and no promise
  has been settled twice; every id in use has been drawn.
\<close>

definition rpc_inv :: "string set \<Rightarrow> starling \<Rightarrow> bool" where
  "rpc_inv ids st \<longleftrightarrow>
     distinct (map fst (pending (requests st))) \<and>
     (\<forall>(k, r) \<in> set (pending (requests st)). req_id r = k) \<and>
     (\<forall>i r. timers st i = Some r \<longrightarrow> (i, r) \<in> set (pending (requests st))) \<and>
     (\<forall>i \<in> fst ` set (pending (requests st)). settlements i st = 0) \<and>
     (\<forall>i. settlements i st \<le> 1) \<and>
     fst ` set (pending (requests st)) \<subseteq> ids \<and>
     fst ` set (settled st) \<subseteq> ids"

section \<open>Inbound notifications\<close>









section \<open>MethodsManager\<close>

text \<open>
  A method name is a JavaScript string; a \<open>char\<close> of the model stands for one code unit of
  it. A handler is the user's function, named here by a number. The options given at
  registration may set \<open>timeout\<close>; the \<open>Method\<close> object keeps 30000 otherwise.
\<close>

record Method =
  name :: string
  handler :: nat
  timeout :: nat

record MethodsManager =
  methods :: "string \<rightharpoonup> Method"
  reservedNames :: "string set"

text \<open>The constructor: no methods, and the reserved namespaces.\<close>

definition MethodsManager_new :: MethodsManager where
  "MethodsManager_new =
     \<lparr>methods = Map.empty,
      reservedNames = {''system'', ''internal'', ''stream'', ''helios''}\<rparr>"

text \<open>
  The errors thrown by \<open>validateMethodName\<close>, one for each \<open>throw\<close>, in the order of the
  checks. The specification calls the first three \<open>INVALID_METHOD_NAME\<close>, the fourth
  \<open>METHOD_EXISTS\<close> and the last \<open>NAME_RESERVED\<close>.
\<close>

datatype method_error =
    NotANonEmptyString
  | TooShort
  | BadPattern
  | AlreadyExists string
  | NamespaceReserved string

text \<open>The regular expression \<open>/^[a-zA-Z][\w:]*$/\<close>.\<close>

definition is_letter :: "char \<Rightarrow> bool" where
  "is_letter c = (c \<in> set ''abcdefghijklmnopqrstuvwxyzABCDEFGHIJKLMNOPQRSTUVWXYZ'')"

definition is_word_char :: "char \<Rightarrow> bool" where
  "is_word_char c = (is_letter c \<or> c \<in> set ''0123456789_'')"

definition matches_name_pattern :: "string \<Rightarrow> bool" where
  "matches_name_pattern s =
     (case s of
        [] \<Rightarrow> False
      | c # cs \<Rightarrow> is_letter c \<and> list_all (\<lambda>x. is_word_char x \<or> x = CHR '':'') cs)"

text \<open>\<open>name.split(':')[0]\<close>: the prefix before the first colon, the whole name without one.\<close>

definition namespace :: "string \<Rightarrow> string" where
  "namespace s = takeWhile (\<lambda>c. c \<noteq> CHR '':'') s"

definition validateMethodName :: "string \<Rightarrow> MethodsManager \<Rightarrow> method_error + unit" where
  "validateMethodName s mgr =
     (if s = [] then Inl NotANonEmptyString
      else if length s < 3 then Inl TooShort
      else if \<not> matches_name_pattern s then Inl BadPattern
      else if methods mgr s \<noteq> None then Inl (AlreadyExists s)
      else if namespace s \<in> reservedNames mgr then Inl (NamespaceReserved (namespace s))
      else Inr ())"

text \<open>
  \<open>MethodsManager.add(name, handler, options)\<close>, which \<open>Starling.method\<close> calls. The result
  is the error thrown, or the new manager and the name carried by the \<open>method:added\<close> event
  emitted on \<open>starling.events\<close>.
\<close>

definition methods_add ::
  "string \<Rightarrow> nat \<Rightarrow> nat option \<Rightarrow> MethodsManager \<Rightarrow> method_error + (MethodsManager \<times> string)" where
  "methods_add s h opts mgr =
     (case validateMethodName s mgr of
        Inl e \<Rightarrow> Inl e
      | Inr _ \<Rightarrow>
          Inr (mgr\<lparr>methods := (methods mgr)
                  (s \<mapsto> \<lparr>name = s, handler = h,
                           timeout = (case opts of None \<Rightarrow> 30000 | Some t \<Rightarrow> t)\<rparr>)\<rparr>,
               s))"

text \<open>
  A sequence of registrations on one manager. A registration that throws leaves the manager
  as it was.
\<close>

fun register_all :: "(string \<times> nat \<times> nat option) list \<Rightarrow> MethodsManager \<Rightarrow> MethodsManager" where
  "register_all [] mgr = mgr"
| "register_all ((s, h, opts) # rs) mgr =
     register_all rs (case methods_add s h opts mgr of Inl e \<Rightarrow> mgr | Inr (mgr', ev) \<Rightarrow> mgr')"

section \<open>StateManager\<close>

text \<open>
  Timestamps are the integers of \<open>getCurrentTimestamp()\<close>. \<open>lastRefresh\<close> and
  \<open>lastDisconnect\<close> are \<open>null\<close> (\<open>None\<close>) until set. \<open>refreshTimer\<close> holds the delay of the
  armed timer, if one is armed. \<open>requested\<close> lists the calls of \<open>starling.request\<close> made by
  the manager (method, payload, timeout option), oldest first. The debug events, emitted
  only under the \<open>debug\<close> option, change no field and are left out.
\<close>

record StateManagerOptions =
  refreshInterval :: int
  minRefreshInterval :: int
  retryAttempts :: nat
  retryDelay :: int
  forceRefreshOnReconnect :: bool

record StateMetrics =
  connectionAttempts :: nat
  reconnections :: nat
  lastDisconnect :: "int option"
  totalDowntime :: int
  refreshes :: nat
  refreshFailures :: nat

record StateManager =
  state_options :: StateManagerOptions
  token :: js
  lastRefresh :: "int option"
  refreshTimer :: "int option"
  refreshing :: bool
  state_metrics :: StateMetrics
  requested :: "(string \<times> js \<times> nat option) list"

text \<open>The constructor, with the options the caller gave merged over the defaults.\<close>

definition StateManagerOptions_default :: StateManagerOptions where
  "StateManagerOptions_default =
     \<lparr>refreshInterval = 5 * 60 * 1000, minRefreshInterval = 60 * 1000, retryAttempts = 3,
      retryDelay = 1000, forceRefreshOnReconnect = True\<rparr>"

definition StateManager_new :: "StateManagerOptions \<Rightarrow> StateManager" where
  "StateManager_new opts =
     \<lparr>state_options = opts, token = JNull, lastRefresh = None, refreshTimer = None,
      refreshing = False,
      state_metrics = \<lparr>connectionAttempts = 0, reconnections = 0, lastDisconnect = None,
                       totalDowntime = 0, refreshes = 0, refreshFailures = 0\<rparr>,
      requested = []\<rparr>"

text \<open>The argument of \<open>refresh\<close>: \<open>force\<close> (absent is \<open>False\<close>) and \<open>timeout\<close>.\<close>

record refresh_options =
  force :: bool
  request_timeout :: "nat option"

text \<open>
  What \<open>refresh\<close> throws: its two own errors (the second with the seconds remaining, as the
  message has them), a \<open>TypeError\<close> of the runtime, or the value with which the request
  was rejected. The specification calls the first \<open>REFRESH_IN_PROGRESS\<close> and the second
  \<open>MIN_INTERVAL_NOT_REACHED\<close>.
\<close>

datatype refresh_error =
    RefreshInProgress
  | MinIntervalNotReached int
  | RuntimeTypeError
  | RequestRejected js

text \<open>The outcome of one protocol request: the response it resolves with, or the rejection.\<close>

datatype request_outcome = Resolves js | Rejects js

text \<open>\<open>_scheduleNextRefresh\<close>: clears the timer and arms one for \<open>refreshInterval\<close>.\<close>

definition scheduleNextRefresh :: "StateManager \<Rightarrow> StateManager" where
  "scheduleNextRefresh st = st\<lparr>refreshTimer := Some (refreshInterval (state_options st))\<rparr>"

text \<open>
  \<open>_emitRefreshSuccess\<close> builds the event from \<open>this.getMetrics()\<close>. The class defines the
  getter \<open>metrics\<close> and no \<open>getMetrics\<close>, so the call throws a \<open>TypeError\<close> before anything
  is emitted.
\<close>

definition emitRefreshSuccess :: "StateManager \<Rightarrow> refresh_error + StateManager" where
  "emitRefreshSuccess st = Inl RuntimeTypeError"

text \<open>
  The body of the inner \<open>try\<close> of \<open>refresh\<close>, after the request has settled with \<open>out\<close>:
  the error caught by its \<open>catch\<close> and the state at the throw, or the token returned.
\<close>

definition refresh_attempt ::
  "request_outcome \<Rightarrow> int \<Rightarrow> StateManager \<Rightarrow> (refresh_error \<times> StateManager) + (js \<times> StateManager)" where
  "refresh_attempt out now st =
     (case out of
        Rejects e \<Rightarrow> Inl (RequestRejected e, st)
      | Resolves response \<Rightarrow>
          (case js_get response ''token'' of
             Inl _ \<Rightarrow> Inl (RuntimeTypeError, st)
           | Inr tok \<Rightarrow>
               let st1 = st\<lparr>token := tok, lastRefresh := Some now,
                            state_metrics := (state_metrics st)
                              \<lparr>refreshes := refreshes (state_metrics st) + 1\<rparr>\<rparr>;
                   st2 = scheduleNextRefresh st1
               in (case emitRefreshSuccess st2 of
                     Inl e \<Rightarrow> Inl (e, st2)
                   | Inr st3 \<Rightarrow> Inr (token st3, st3))))"

text \<open>
  The \<open>catch\<close> of the loop builds the argument of \<open>_debug\<close> from \<open>error.message\<close> before it
  tests the number of attempts. Reading that property throws a \<open>TypeError\<close> when the request
  was rejected with \<open>undefined\<close> or \<open>null\<close>; a \<open>TypeError\<close> caught has a message.
\<close>

definition message_throws :: "refresh_error \<Rightarrow> bool" where
  "message_throws e =
     (case e of
        RequestRejected v \<Rightarrow> (case js_get v ''message'' of Inl t \<Rightarrow> True | Inr x \<Rightarrow> False)
      | _ \<Rightarrow> False)"

text \<open>
  The \<open>while\<close> loop of \<open>refresh\<close>; \<open>tries\<close> is its counter \<open>attempts\<close>, and \<open>env k\<close> is the
  outcome of the request made when the counter is \<open>k\<close>.
  The loop ends by returning the token, by the \<open>TypeError\<close> thrown in its \<open>catch\<close>, by
  rethrowing the error of the last attempt, or, with \<open>retryAttempts = 0\<close>, by falling
  through (the function then returns \<open>undefined\<close>).
\<close>

function refresh_loop ::
  "(nat \<Rightarrow> request_outcome) \<Rightarrow> nat option \<Rightarrow> int \<Rightarrow> nat \<Rightarrow> StateManager
     \<Rightarrow> (refresh_error + js) \<times> StateManager" where
  "refresh_loop env tmo now tries st =
     (if tries < retryAttempts (state_options st) then
        (let st1 = st\<lparr>requested := requested st @ [(''starling:state'', JNull, tmo)]\<rparr>
         in case refresh_attempt (env tries) now st1 of
              Inr (tok, st2) \<Rightarrow> (Inr tok, st2)
            | Inl (e, st2) \<Rightarrow>
                let st3 = st2\<lparr>state_metrics := (state_metrics st2)
                              \<lparr>refreshFailures := refreshFailures (state_metrics st2) + 1\<rparr>\<rparr>
                in if message_throws e then (Inl RuntimeTypeError, st3)
                   else if retryAttempts (state_options st3) \<le> tries + 1 then (Inl e, st3)
                   else refresh_loop env tmo now (tries + 1) st3)
      else (Inr JUndefined, st))"
  by pat_completeness auto

termination refresh_loop
  by (relation "measure (\<lambda>(env, tmo, now, tries, st). retryAttempts (state_options st) - tries)")
     (auto simp: refresh_attempt_def scheduleNextRefresh_def emitRefreshSuccess_def Let_def
           split: request_outcome.splits sum.splits)

declare refresh_loop.simps [simp del]

text \<open>
  The check of the minimum interval in \<open>refresh\<close>: the error it throws, if it throws.
  \<open>this._lastRefresh\<close> is tested for truthiness, so a \<open>lastRefresh\<close> of 0 counts as unset.
\<close>

definition min_interval_check :: "refresh_options \<Rightarrow> int \<Rightarrow> StateManager \<Rightarrow> refresh_error option" where
  "min_interval_check opts now st =
     (case lastRefresh st of
        None \<Rightarrow> None
      | Some t \<Rightarrow>
          if \<not> force opts \<and> t \<noteq> 0 then
            (let elapsed = now - t
             in if elapsed < minRefreshInterval (state_options st)
                then Some (MinIntervalNotReached
                             ((minRefreshInterval (state_options st) - elapsed) div 1000))
                else None)
          else None)"

text \<open>
  \<open>refresh(options)\<close>, called when the clock shows \<open>now\<close>: the value the promise settles
  with (\<open>Inl\<close> a rejection) and the state then. The \<open>finally\<close> block clears \<open>refreshing\<close>.
\<close>

definition refresh ::
  "refresh_options \<Rightarrow> int \<Rightarrow> (nat \<Rightarrow> request_outcome) \<Rightarrow> StateManager
     \<Rightarrow> (refresh_error + js) \<times> StateManager" where
  "refresh opts now env st =
     (if refreshing st then (Inl RefreshInProgress, st)
      else case min_interval_check opts now st of
        Some e \<Rightarrow> (Inl e, st)
      | None \<Rightarrow>
          (case refresh_loop env (request_timeout opts) now 0 (st\<lparr>refreshing := True\<rparr>) of
             (r, st') \<Rightarrow> (r, st'\<lparr>refreshing := False\<rparr>)))"

section \<open>ReconnectionManager\<close>

text \<open>
  Delays and the multiplier are numbers, modelled as reals; timestamps and durations are
  the integers of \<open>getCurrentTimestamp()\<close>; \<open>maxAttempts\<close> may be \<open>Infinity\<close>. The options
  are those of the constructor after the defaults have been merged in.
\<close>

record ReconnectionOptions =
  minDelay :: real
  maxDelay :: real
  maxAttempts :: enat
  backoffMultiplier :: real
  resetThreshold :: int

text \<open>
  The fields that \<open>_metrics\<close> and the result of \<open>getMetrics()\<close> share; \<open>attempts'\<close> is the
  field \<open>attempts\<close>. \<open>_metrics\<close> has \<open>attemptDurations\<close> besides, and the result of
  \<open>getMetrics()\<close> has \<open>averageAttemptDuration\<close>.
\<close>

record ReconnectionCounters =
  attempts' :: nat
  totalAttempts :: nat
  successfulReconnections :: nat
  failedAttempts :: nat
  lastAttempt :: "int option"
  lastSuccess :: "int option"
  lastReset :: int
  currentDelay :: real

record Metrics = ReconnectionCounters +
  attemptDurations :: "int list"

record ReconnectionMetrics = ReconnectionCounters +
  averageAttemptDuration :: number

text \<open>
  The manager: \<open>timeoutId\<close> holds the delay of the timer of \<open>_scheduleNextAttempt\<close> while
  \<open>_timeoutId\<close> is set, \<open>currentAttempt\<close> tells whether \<open>_currentAttempt\<close> holds an
  \<open>AbortController\<close>. \<open>waits\<close> lists the delays that \<open>_scheduleNextAttempt\<close> has given to
  \<open>setTimeout\<close>, oldest first. The events, which carry the result of \<open>getMetrics()\<close>,
  change no field and are left out.
\<close>

record ReconnectionManager =
  reconnect_options :: ReconnectionOptions
  reconnect_metrics :: Metrics
  active :: bool
  timeoutId :: "real option"
  currentAttempt :: bool
  waits :: "real list"

text \<open>The initial \<open>_metrics\<close>, of the constructor and of \<open>reset\<close>, at clock \<open>now\<close>.\<close>

definition initial_metrics :: "ReconnectionOptions \<Rightarrow> int \<Rightarrow> Metrics" where
  "initial_metrics opts now =
     \<lparr>attempts' = 0, totalAttempts = 0, successfulReconnections = 0, failedAttempts = 0,
      lastAttempt = None, lastSuccess = None, lastReset = now, currentDelay = minDelay opts,
      attemptDurations = []\<rparr>"

definition ReconnectionManager_new :: "ReconnectionOptions \<Rightarrow> int \<Rightarrow> ReconnectionManager" where
  "ReconnectionManager_new opts now =
     \<lparr>reconnect_options = opts, reconnect_metrics = initial_metrics opts now, active = False,
      timeoutId = None, currentAttempt = False, waits = []\<rparr>"

text \<open>\<open>stop()\<close>.\<close>

definition stop :: "ReconnectionManager \<Rightarrow> ReconnectionManager" where
  "stop m = m\<lparr>active := False, timeoutId := None, currentAttempt := False\<rparr>"

text \<open>\<open>reset()\<close>.\<close>

definition reset :: "int \<Rightarrow> ReconnectionManager \<Rightarrow> ReconnectionManager" where
  "reset now m = (stop m)\<lparr>reconnect_metrics := initial_metrics (reconnect_options m) now\<rparr>"

text \<open>
  \<open>getMetrics()\<close>. \<open>reduce((a, b) => a + b, 0)\<close> is \<open>foldl\<close>; the division is that of
  numbers, \<open>js_divide\<close>.
\<close>

definition getMetrics :: "ReconnectionManager \<Rightarrow> ReconnectionMetrics" where
  "getMetrics m =
     (let ds = attemptDurations (reconnect_metrics m);
          avgDuration = (if 0 < length ds
                         then js_divide (real_of_int (foldl (\<lambda>a b. a + b) 0 ds))
                                (real (length ds))
                         else Finite 0)
      in \<lparr>attempts' = attempts' (reconnect_metrics m),
          totalAttempts = totalAttempts (reconnect_metrics m),
          successfulReconnections = successfulReconnections (reconnect_metrics m),
          failedAttempts = failedAttempts (reconnect_metrics m),
          lastAttempt = lastAttempt (reconnect_metrics m),
          lastSuccess = lastSuccess (reconnect_metrics m),
          lastReset = lastReset (reconnect_metrics m),
          currentDelay = currentDelay (reconnect_metrics m),
          averageAttemptDuration = avgDuration\<rparr>)"

text \<open>
  The listener of \<open>starling:connected\<close> installed by \<open>_bindEvents\<close>, run at clock \<open>now\<close>.
  \<open>lastAttempt\<close> is tested for truthiness. Only the last 10 durations are kept.
\<close>

definition on_connected :: "int \<Rightarrow> ReconnectionManager \<Rightarrow> ReconnectionManager" where
  "on_connected now m =
     (let mt = reconnect_metrics m;
          mt1 = (case lastAttempt mt of
                   None \<Rightarrow> mt
                 | Some t \<Rightarrow>
                     if t \<noteq> 0 then
                       (let ds = attemptDurations mt @ [now - t]
                        in mt\<lparr>attemptDurations := (if 10 < length ds then tl ds else ds)\<rparr>)
                     else mt);
          mt2 = mt1\<lparr>lastSuccess := Some now,
                    successfulReconnections := successfulReconnections mt1 + 1\<rparr>
      in stop (m\<lparr>reconnect_metrics := mt2\<rparr>))"

text \<open>\<open>_resetIfNeeded()\<close> at clock \<open>now\<close>; \<open>lastReset\<close> is tested for truthiness.\<close>

definition resetIfNeeded :: "int \<Rightarrow> ReconnectionManager \<Rightarrow> ReconnectionManager" where
  "resetIfNeeded now m =
     (let mt = reconnect_metrics m
      in if lastReset mt \<noteq> 0 \<and> resetThreshold (reconnect_options m) \<le> now - lastReset mt
         then m\<lparr>reconnect_metrics := mt\<lparr>attempts' := 0,
                                         currentDelay := minDelay (reconnect_options m),
                                         lastReset := now\<rparr>\<rparr>
         else m)"

text \<open>
  The part of \<open>_scheduleNextAttempt\<close> between the two guards and the \<open>await\<close>: the delay is
  computed from \<open>currentDelay\<close>, stored there, and given to \<open>setTimeout\<close>.
\<close>

definition arm_wait :: "ReconnectionManager \<Rightarrow> ReconnectionManager" where
  "arm_wait m =
     (let delay = min (currentDelay (reconnect_metrics m) * backoffMultiplier (reconnect_options m))
                      (maxDelay (reconnect_options m))
      in m\<lparr>reconnect_metrics := (reconnect_metrics m)\<lparr>currentDelay := delay\<rparr>,
           timeoutId := Some delay,
           waits := waits m @ [delay]\<rparr>)"

text \<open>
  What the surroundings do in one round of the loop. During the wait: \<open>stop()\<close> is called
  (the timer is cleared and the loop never resumes), or the timer fires. After the timer
  has fired, at clock \<open>now\<close>, the attempt is made and \<open>connect()\<close> is raced against the abort
  signal: \<open>stop()\<close> aborts the attempt, \<open>connect()\<close> rejects, or the socket opens and
  \<open>starling:connected\<close> is emitted at the clock given.
\<close>

datatype attempt_outcome = Aborted | Failed | Opened int

datatype round = Stopped | Fires int attempt_outcome

text \<open>
  \<open>_scheduleNextAttempt\<close> and \<open>_attemptReconnection\<close>, which call each other, run against
  the rounds of a script. The result is the state when the script is used up or the loop
  has ended, with a flag that tells whether the function has returned (\<open>False\<close>: it is
  still at its \<open>await\<close>). The \<open>finally\<close> of \<open>_attemptReconnection\<close> clears \<open>_currentAttempt\<close>
  when the function returns.
\<close>

fun scheduleNextAttempt :: "round list \<Rightarrow> ReconnectionManager \<Rightarrow> bool \<times> ReconnectionManager"
  and attemptReconnection ::
    "int \<Rightarrow> attempt_outcome \<Rightarrow> round list \<Rightarrow> ReconnectionManager \<Rightarrow> bool \<times> ReconnectionManager"
where
  "scheduleNextAttempt script m =
     (if \<not> active m then (True, m)
      else if maxAttempts (reconnect_options m) \<le> enat (attempts' (reconnect_metrics m))
      then (True, stop m)
      else (case script of
              [] \<Rightarrow> (False, arm_wait m)
            | Stopped # rest \<Rightarrow> (False, stop (arm_wait m))
            | Fires now out # rest \<Rightarrow>
                if active (arm_wait m) then attemptReconnection now out rest (arm_wait m)
                else (True, arm_wait m)))"
| "attemptReconnection now out rest m =
     (if \<not> active m then (True, m)
      else
        (let mt = reconnect_metrics m;
             m1 = m\<lparr>reconnect_metrics := mt\<lparr>attempts' := attempts' mt + 1,
                                              totalAttempts := totalAttempts mt + 1,
                                              lastAttempt := Some now\<rparr>,
                    currentAttempt := True\<rparr>
         in case out of
              Aborted \<Rightarrow> (True, (stop m1)\<lparr>currentAttempt := False\<rparr>)
            | Opened t \<Rightarrow> (True, (on_connected t m1)\<lparr>currentAttempt := False\<rparr>)
            | Failed \<Rightarrow>
                (let m2 = m1\<lparr>reconnect_metrics := (reconnect_metrics m1)
                             \<lparr>failedAttempts := failedAttempts (reconnect_metrics m1) + 1\<rparr>\<rparr>
                 in case scheduleNextAttempt rest m2 of
                      (returned, m3) \<Rightarrow>
                        (returned, if returned then m3\<lparr>currentAttempt := False\<rparr> else m3))))"

declare scheduleNextAttempt.simps [simp del] attemptReconnection.simps [simp del]

text \<open>\<open>start()\<close> at clock \<open>now\<close>.\<close>

definition start :: "int \<Rightarrow> round list \<Rightarrow> ReconnectionManager \<Rightarrow> bool \<times> ReconnectionManager" where
  "start now script m =
     (if active m then (True, m)
      else scheduleNextAttempt script (resetIfNeeded now (m\<lparr>active := True\<rparr>)))"

text \<open>\<open>forceAttempt()\<close>, the attempt made at clock \<open>now\<close>.\<close>

definition forceAttempt ::
  "int \<Rightarrow> attempt_outcome \<Rightarrow> round list \<Rightarrow> ReconnectionManager \<Rightarrow> bool \<times> ReconnectionManager" where
  "forceAttempt now out rest m =
     attemptReconnection now out rest ((if currentAttempt m then stop m else m)\<lparr>active := True\<rparr>)"

text \<open>The calls and events that reach a manager, for statements about every sequence of them.\<close>

datatype reconnect_op =
    Start int "round list"
  | Stop
  | ForceAttempt int attempt_outcome "round list"
  | Reset int
  | Connected int

fun reconnect_step :: "reconnect_op \<Rightarrow> ReconnectionManager \<Rightarrow> ReconnectionManager" where
  "reconnect_step (Start now script) m = snd (start now script m)"
| "reconnect_step Stop m = stop m"
| "reconnect_step (ForceAttempt now out rest) m = snd (forceAttempt now out rest m)"
| "reconnect_step (Reset now) m = reset now m"
| "reconnect_step (Connected now) m = on_connected now m"

fun reconnect_run :: "reconnect_op list \<Rightarrow> ReconnectionManager \<Rightarrow> ReconnectionManager" where
  "reconnect_run [] m = m"
| "reconnect_run (x # xs) m = reconnect_run xs (reconnect_step x m)"

text \<open>
  A list of delays in which every delay is the one before it times the multiplier, capped
  at \<open>maxDelay\<close>; \<open>d\<close> is the delay before the first.
\<close>

fun backoff_chain :: "ReconnectionOptions \<Rightarrow> real \<Rightarrow> real list \<Rightarrow> bool" where
  "backoff_chain opts d [] = True"
| "backoff_chain opts d (x # xs) =
     (x = min (d * backoffMultiplier opts) (maxDelay opts) \<and> backoff_chain opts x xs)"

text \<open>
  What a run of the loop does to a manager: the options stay; delays are added to \<open>waits\<close>,
  and they form a chain that starts from \<open>currentDelay\<close> and ends in the new \<open>currentDelay\<close>;
  the stored durations stay within 10 if they were.
\<close>

definition loop_step :: "ReconnectionManager \<Rightarrow> ReconnectionManager \<Rightarrow> bool" where
  "loop_step m m' \<longleftrightarrow>
     reconnect_options m' = reconnect_options m \<and>
     (\<exists>ds. waits m' = waits m @ ds \<and>
           backoff_chain (reconnect_options m) (currentDelay (reconnect_metrics m)) ds \<and>
           currentDelay (reconnect_metrics m') = last (currentDelay (reconnect_metrics m) # ds)) \<and>
     (length (attemptDurations (reconnect_metrics m)) \<le> 10 \<longrightarrow>
      length (attemptDurations (reconnect_metrics m')) \<le> 10)"


section \<open>Properties of the buffer and the send path\<close>

lemma add_fst: "fst (add now m st) = True"
  by (simp add: add_def Let_def)

lemma add_ws: "ws (snd (add now m st)) = ws st"
  by (simp add: add_def Let_def emit_def)

lemma add_maxSize: "maxSize (messageBuffer (snd (add now m st))) = maxSize (messageBuffer st)"
  by (simp add: add_def Let_def emit_def)

lemma add_messages:
  "messages (messageBuffer (snd (add now m st))) =
     (if isFull (messageBuffer st) then tl (messages (messageBuffer st))
      else messages (messageBuffer st)) @ [\<lparr>content = m, timestamp = now, attempts = 0\<rparr>]"
  by (simp add: add_def Let_def emit_def)

lemma add_events:
  "events (snd (add now m st)) =
     events st @ (if isFull (messageBuffer st) then [BufferFull] else []) @
     [BufferAdded (length (messages (messageBuffer (snd (add now m st)))))]"
  by (simp add: add_def Let_def emit_def)

lemma retained_add:
  "retained (snd (add now m st)) =
     (if isFull (messageBuffer st) then tl (retained st) else retained st) @ [m]"
  by (simp add: retained_def add_messages map_tl)

lemma connected_add: "connected (snd (add now m st)) = connected st"
  by (simp add: connected_def add_ws)

lemma send_offline: "\<not> connected st \<Longrightarrow> send now m st = add now m st"
  by (simp add: send_def)

lemma send_fst: "fst (send now m st) = True"
  by (auto simp: send_def add_fst split: option.splits prod.splits bool.splits)

text \<open>
  A message handed to \<open>send\<close> is the last one written on the socket, or the last one in
  the buffer.
\<close>

lemma send_delivers:
  "(\<exists>sock sock'. ws st = Some sock \<and> ws (snd (send now m st)) = Some sock' \<and>
       wire sock' = wire sock @ [m] \<and> retained (snd (send now m st)) = retained st)
 \<or> retained (snd (send now m st)) =
       (if isFull (messageBuffer st) then tl (retained st) else retained st) @ [m]"
proof (cases "connected st")
  case False
  then show ?thesis by (simp add: send_offline retained_add)
next
  case True
  then obtain sock where w: "ws st = Some sock"
    by (auto simp: connected_def split: option.splits)
  show ?thesis
  proof (cases "fst (ws_send m sock)")
    case True
    then obtain sock' where o: "ws_send m sock = (True, sock')"
      by (cases "ws_send m sock") simp
    then have "wire sock' = wire sock @ [m]"
      by (auto simp: ws_send_def split: list.splits if_splits)
    moreover from o w \<open>connected st\<close> have "send now m st = (True, st\<lparr>ws := Some sock'\<rparr>)"
      by (simp add: send_def)
    ultimately show ?thesis using w by (simp add: retained_def)
  next
    case False
    then obtain sock' where o: "ws_send m sock = (False, sock')"
      by (cases "ws_send m sock") simp
    with w \<open>connected st\<close>
    have "send now m st = add now m (st\<lparr>ws := Some (snd (ws_send m sock))\<rparr>)"
      by (simp add: send_def)
    moreover have "retained (st\<lparr>ws := Some (snd (ws_send m sock))\<rparr>) = retained st"
      "isFull (messageBuffer (st\<lparr>ws := Some (snd (ws_send m sock))\<rparr>)) = isFull (messageBuffer st)"
      by (simp_all add: retained_def)
    ultimately show ?thesis by (simp add: retained_add)
  qed
qed

lemma send_all_offline: "\<not> connected st \<Longrightarrow> send_all fs st = add_all fs st"
  by (induction fs arbitrary: st) (auto simp: send_offline connected_add)

lemma add_all_ws: "ws (add_all fs st) = ws st"
  by (induction fs arbitrary: st) (auto simp: add_ws)

lemma add_all_maxSize: "maxSize (messageBuffer (add_all fs st)) = maxSize (messageBuffer st)"
  by (induction fs arbitrary: st) (auto simp: add_maxSize)

lemma retained_add_all:
  "0 < maxSize (messageBuffer st) \<Longrightarrow> length (retained st) \<le> maxSize (messageBuffer st) \<Longrightarrow>
   retained (add_all fs st) =
     drop (length (retained st @ map snd fs) - maxSize (messageBuffer st)) (retained st @ map snd fs)"
proof (induction fs arbitrary: st)
  case Nil
  then show ?case by simp
next
  case (Cons f fs)
  obtain now m where f: "f = (now, m)" by (cases f)
  let ?st = "snd (add now m st)"
  let ?C = "maxSize (messageBuffer st)"
  show ?case
  proof (cases "isFull (messageBuffer st)")
    case True
    then have len: "length (retained st) = ?C"
      using Cons.prems by (simp add: isFull_def retained_def)
    then have ne: "retained st \<noteq> []" using Cons.prems by auto
    have r: "retained ?st = tl (retained st) @ [m]" using True by (simp add: retained_add)
    have l: "length (retained ?st) \<le> maxSize (messageBuffer ?st)"
      using len ne Cons.prems(1) by (simp add: r add_maxSize)
    have "retained (add_all fs ?st) =
            drop (length (retained ?st @ map snd fs) - ?C) (retained ?st @ map snd fs)"
      using Cons.IH [of ?st] Cons.prems l by (simp add: add_maxSize)
    also have "\<dots> = drop (length fs) (tl (retained st) @ m # map snd fs)"
    proof -
      have "length (retained ?st) = ?C" using len ne Cons.prems(1) by (simp add: r)
      then have "length (retained ?st @ map snd fs) - ?C = length fs" by simp
      then show ?thesis by (simp only: r append_assoc append_Cons append_Nil)
    qed
    also have "\<dots> = drop (Suc (length fs)) (retained st @ m # map snd fs)"
      using ne by (cases "retained st") simp_all
    finally show ?thesis using len by (simp add: f)
  next
    case False
    then have len: "length (retained st) < ?C"
      by (simp add: isFull_def retained_def)
    have r: "retained ?st = retained st @ [m]" using False by (simp add: retained_add)
    have l: "length (retained ?st) \<le> maxSize (messageBuffer ?st)"
      using len by (simp add: r add_maxSize)
    have "retained (add_all fs ?st) =
            drop (length (retained ?st @ map snd fs) - ?C) (retained ?st @ map snd fs)"
      using Cons.IH [of ?st] Cons.prems l by (simp add: add_maxSize)
    then show ?thesis by (simp add: f r)
  qed
qed

lemma flush_loop_remaining:
  "flush_loop ms remaining sent s = (r, n, s') \<Longrightarrow> length r \<le> length remaining + length ms"
proof (induction ms arbitrary: remaining sent s)
  case Nil
  then show ?case by simp
next
  case (Cons m ms)
  then show ?case
    by (cases "ws_send (content m) s") (fastforce split: bool.splits)
qed

lemma flush_maxSize: "maxSize (messageBuffer (flush st)) = maxSize (messageBuffer st)"
  by (auto simp: flush_def emit_def Let_def split: option.splits prod.splits)

lemma flush_length:
  "length (messages (messageBuffer (flush st))) \<le> length (messages (messageBuffer st))"
  by (auto simp: flush_def emit_def Let_def split: option.splits prod.splits
           dest: flush_loop_remaining)

lemma clear_maxSize: "maxSize (messageBuffer (clear st)) = maxSize (messageBuffer st)"
  by (simp add: clear_def emit_def Let_def)

lemma clear_messages: "messages (messageBuffer (clear st)) = []"
  by (simp add: clear_def emit_def Let_def)

lemma add_length:
  "0 < maxSize (messageBuffer st) \<Longrightarrow>
   length (messages (messageBuffer st)) \<le> maxSize (messageBuffer st) \<Longrightarrow>
   length (messages (messageBuffer (snd (add now m st)))) \<le> maxSize (messageBuffer st)"
  by (auto simp: add_messages isFull_def)

lemma buffer_step_bound:
  assumes "0 < maxSize (messageBuffer st)"
    and "length (messages (messageBuffer st)) \<le> maxSize (messageBuffer st)"
  shows "maxSize (messageBuffer (buffer_step x st)) = maxSize (messageBuffer st) \<and>
   length (messages (messageBuffer (buffer_step x st))) \<le> maxSize (messageBuffer st)"
proof (cases x)
  case (Add now m)
  then show ?thesis using add_length [OF assms, of now m] by (simp add: add_maxSize)
next
  case Flush
  then show ?thesis using flush_length [of st] assms(2) by (simp add: flush_maxSize)
next
  case Clear
  then show ?thesis by (simp add: clear_maxSize clear_messages)
qed

lemma buffer_run_bound:
  "0 < maxSize (messageBuffer st) \<Longrightarrow>
   length (messages (messageBuffer st)) \<le> maxSize (messageBuffer st) \<Longrightarrow>
   maxSize (messageBuffer (buffer_run xs st)) = maxSize (messageBuffer st) \<and>
   length (messages (messageBuffer (buffer_run xs st))) \<le> maxSize (messageBuffer st)"
proof (induction xs arbitrary: st)
  case Nil
  then show ?case by simp
next
  case (Cons x xs)
  from buffer_step_bound [OF Cons.prems, of x]
  have a: "maxSize (messageBuffer (buffer_step x st)) = maxSize (messageBuffer st)"
    and b: "length (messages (messageBuffer (buffer_step x st))) \<le> maxSize (messageBuffer st)"
    by simp_all
  from Cons.IH [of "buffer_step x st"] a b Cons.prems(1) show ?case by simp
qed


lemma retained_add_all_fits:
  "length (retained st) + length fs \<le> maxSize (messageBuffer st) \<Longrightarrow>
   retained (add_all fs st) = retained st @ map snd fs"
proof (induction fs arbitrary: st)
  case Nil
  then show ?case by simp
next
  case (Cons f fs)
  obtain now m where f: "f = (now, m)" by (cases f)
  let ?st = "snd (add now m st)"
  have nf: "\<not> isFull (messageBuffer st)"
    using Cons.prems by (simp add: isFull_def retained_def)
  then have r: "retained ?st = retained st @ [m]" by (simp add: retained_add)
  have "length (retained ?st) + length fs \<le> maxSize (messageBuffer ?st)"
    using Cons.prems by (simp add: r add_maxSize)
  from Cons.IH [OF this] show ?case by (simp add: f r)
qed

lemma ws_send_ok:
  "True \<notin> set (faults s) \<Longrightarrow>
   \<exists>s'. ws_send m s = (True, s') \<and> wire s' = wire s @ [m] \<and>
        readyState s' = readyState s \<and> True \<notin> set (faults s')"
  by (cases "faults s") (auto simp: ws_send_def)

lemma flush_loop_ok:
  "True \<notin> set (faults s) \<Longrightarrow>
   \<exists>s'. flush_loop ms remaining sent s = (remaining, sent + length ms, s') \<and>
        wire s' = wire s @ map content ms \<and> readyState s' = readyState s"
proof (induction ms arbitrary: sent s)
  case Nil
  then show ?case by simp
next
  case (Cons m ms)
  from ws_send_ok [OF Cons.prems, of "content m"] obtain s1 where
    s1: "ws_send (content m) s = (True, s1)" "wire s1 = wire s @ [content m]"
        "readyState s1 = readyState s" "True \<notin> set (faults s1)"
    by blast
  from Cons.IH [OF s1(4), of "Suc sent"] obtain s' where
    "flush_loop ms remaining (Suc sent) s1 = (remaining, Suc sent + length ms, s')"
    "wire s' = wire s1 @ map content ms" "readyState s' = readyState s1"
    by blast
  with s1 show ?case by simp
qed

lemma flush_ok:
  assumes "ws st = Some s" and "readyState s = OPEN" and "True \<notin> set (faults s)"
  shows "\<exists>s'. ws (flush st) = Some s' \<and> wire s' = wire s @ retained st \<and>
              readyState s' = OPEN \<and> messages (messageBuffer (flush st)) = []"
proof -
  from flush_loop_ok [OF assms(3), of "messages (messageBuffer st)" "[]" 0] obtain s' where
    "flush_loop (messages (messageBuffer st)) [] 0 s =
       ([], length (messages (messageBuffer st)), s')"
    "wire s' = wire s @ map content (messages (messageBuffer st))" "readyState s' = readyState s"
    by auto
  with assms(1,2) show ?thesis
    by (simp add: flush_def connected_def emit_def retained_def Let_def)
qed

text \<open>
  Claim C2. Let the buffer have capacity \<open>C = maxSize\<close>, \<open>C\<close> positive (the constructor sets
  1000), and hold at most \<open>C\<close> messages. Then
  \<^item> \<open>add\<close> appends the frame, and removes the oldest entry exactly when the buffer is full;
  \<^item> after any frames \<open>fs\<close> have been passed to \<open>send\<close> while disconnected, the buffer holds
    exactly the last \<open>C\<close> of the frames it has been given, in insertion order: of \<open>C + k\<close>
    frames given to an empty buffer the first \<open>k\<close> are gone;
  \<^item> after any sequence of \<open>add\<close>, \<open>flush\<close> and \<open>clear\<close> the capacity is unchanged and the
    buffer holds at most \<open>C\<close> messages.
\<close>

theorem C2_drop_oldest_bound:
  assumes "0 < maxSize (messageBuffer st)"
    and "length (messages (messageBuffer st)) \<le> maxSize (messageBuffer st)"
  shows "retained (snd (add now m st)) =
           (if isFull (messageBuffer st) then tl (retained st) else retained st) @ [m]
       \<and> (\<not> connected st \<longrightarrow>
            retained (send_all fs st) =
              drop (length (retained st @ map snd fs) - maxSize (messageBuffer st))
                (retained st @ map snd fs))
       \<and> maxSize (messageBuffer (buffer_run ops st)) = maxSize (messageBuffer st)
       \<and> length (messages (messageBuffer (buffer_run ops st))) \<le> maxSize (messageBuffer st)"
proof -
  have l: "length (retained st) \<le> maxSize (messageBuffer st)"
    using assms(2) by (simp add: retained_def)
  show ?thesis
    using retained_add_all [OF assms(1) l, of fs] buffer_run_bound [OF assms, of ops]
    by (simp add: retained_add send_all_offline)
qed

text \<open>
  The theorem at capacity 2 and three frames sent offline: \<open>F1\<close> is dropped, \<open>F2\<close> and \<open>F3\<close>
  are retained in that order.
\<close>

theorem C2_drop_oldest_bound_witness:
  "(let st = Starling_new\<lparr>messageBuffer := \<lparr>messages = [], maxSize = 2\<rparr>\<rparr>;
        fs = [(1, Text ''F1''), (2, Text ''F2''), (3, Text ''F3'')]
    in 0 < maxSize (messageBuffer st)
     \<and> length (messages (messageBuffer st)) \<le> maxSize (messageBuffer st)
     \<and> \<not> connected st
     \<and> retained (send_all fs st) = [Text ''F2'', Text ''F3'']
     \<and> length (messages (messageBuffer (buffer_run [Add 1 (Text ''F1''), Add 2 (Text ''F2''),
            Add 3 (Text ''F3''), Flush, Add 4 (Text ''F4'')] st))) \<le> 2)"
  using C2_drop_oldest_bound
    [of "Starling_new\<lparr>messageBuffer := \<lparr>messages = [], maxSize = 2\<rparr>\<rparr>"
        1 "Text ''F1''" "[(1, Text ''F1''), (2, Text ''F2''), (3, Text ''F3'')]"
        "[Add 1 (Text ''F1''), Add 2 (Text ''F2''), Add 3 (Text ''F3''), Flush, Add 4 (Text ''F4'')]"]
  by (simp add: connected_def retained_def Starling_new_def)

text \<open>
  Claim C3. The client is offline with an empty buffer, and the frames \<open>F1 \<dots> Fn\<close> (\<open>fs\<close>, no
  more than the capacity) are passed to \<open>send\<close>. Then \<open>connect()\<close> stores a socket \<open>s\<close> in
  \<open>this.ws\<close>, the socket opens and its \<open>onopen\<close> handler runs. If no write on \<open>s\<close> throws, the
  socket has then accepted exactly \<open>F1 \<dots> Fn\<close>, in this order, after what it held before, and
  the buffer is empty.
\<close>

theorem C3_fifo_flush:
  assumes "\<not> connected st"
    and "messages (messageBuffer st) = []"
    and "length fs \<le> maxSize (messageBuffer st)"
    and "readyState s = OPEN"
    and "True \<notin> set (faults s)"
  shows "\<exists>s'. ws (onopen ((send_all fs st)\<lparr>ws := Some s\<rparr>)) = Some s'
            \<and> wire s' = wire s @ map snd fs
            \<and> messages (messageBuffer (onopen ((send_all fs st)\<lparr>ws := Some s\<rparr>))) = []"
proof -
  let ?st1 = "(emit StarlingOpen ((send_all fs st)\<lparr>ws := Some s\<rparr>))"
  have "retained (send_all fs st) = map snd fs"
    using retained_add_all_fits [of st fs] assms(1,2,3)
    by (simp add: send_all_offline retained_def)
  then have r: "retained ?st1 = map snd fs" by (simp add: retained_def emit_def)
  have w: "ws ?st1 = Some s" by (simp add: emit_def)
  from flush_ok [OF w assms(4,5)] r show ?thesis by (auto simp: onopen_def)
qed

text \<open>The theorem for a new buffer, three frames and a new socket without faults.\<close>

theorem C3_fifo_flush_witness:
  "(let st = Starling_new;
        fs = [(1, Text ''F1''), (2, Text ''F2''), (3, Text ''F3'')];
        s = \<lparr>readyState = OPEN, wire = [], faults = []\<rparr>
    in \<not> connected st
     \<and> messages (messageBuffer st) = []
     \<and> length fs \<le> maxSize (messageBuffer st)
     \<and> readyState s = OPEN
     \<and> True \<notin> set (faults s)
     \<and> (\<exists>s'. ws (onopen ((send_all fs st)\<lparr>ws := Some s\<rparr>)) = Some s'
            \<and> wire s' = [Text ''F1'', Text ''F2'', Text ''F3'']
            \<and> messages (messageBuffer (onopen ((send_all fs st)\<lparr>ws := Some s\<rparr>))) = []))"
  using C3_fifo_flush
    [of "Starling_new"
        "[(1, Text ''F1''), (2, Text ''F2''), (3, Text ''F3'')]"
        "\<lparr>readyState = OPEN, wire = [], faults = []\<rparr>"]
  by (simp add: connected_def MessageBuffer_new_def Starling_new_def)

text \<open>
  Claim C9. \<open>MessageBuffer.add\<close> returns \<open>true\<close> on every input and in every state, and so does
  \<open>Starling.send\<close>, which is \<open>add\<close> when the client is not connected. A full buffer shows in
  the events only: \<open>add\<close> emits \<open>buffer:full\<close> before \<open>buffer:added\<close> exactly when the buffer
  is full, and returns the same value either way.
\<close>

theorem C9_add_always_true:
  "fst (add now m st)
 \<and> fst (send now m st)
 \<and> (\<not> connected st \<longrightarrow> send now m st = add now m st)
 \<and> events (snd (add now m st)) =
     events st @ (if isFull (messageBuffer st) then [BufferFull] else []) @
     [BufferAdded (length (messages (messageBuffer (snd (add now m st)))))]"
  using add_events [of now m st] by (simp add: add_fst send_fst send_offline)

text \<open>
  The theorem on a full buffer of capacity 1, offline: \<open>send\<close> returns \<open>true\<close>, the old frame
  is gone and \<open>buffer:full\<close> was emitted.
\<close>

theorem C9_add_always_true_witness:
  "(let st = Starling_new
               \<lparr>messageBuffer := \<lparr>messages = [\<lparr>content = Text ''old'', timestamp = 1, attempts = 0\<rparr>],
                                 maxSize = 1\<rparr>\<rparr>
    in \<not> connected st
     \<and> isFull (messageBuffer st)
     \<and> send 2 (Text ''new'') st = add 2 (Text ''new'') st
     \<and> fst (send 2 (Text ''new'') st)
     \<and> retained (snd (send 2 (Text ''new'') st)) = [Text ''new'']
     \<and> events (snd (send 2 (Text ''new'') st)) = [BufferFull, BufferAdded 1])"
  using C9_add_always_true
    [of 2 "Text ''new''"
        "Starling_new
          \<lparr>messageBuffer := \<lparr>messages = [\<lparr>content = Text ''old'', timestamp = 1, attempts = 0\<rparr>],
                            maxSize = 1\<rparr>\<rparr>"]
  by (simp add: connected_def isFull_def retained_def add_messages Starling_new_def)

section \<open>Properties of the request table\<close>

lemma add_frame:
  "requests (snd (add now m st)) = requests st"
  "timers (snd (add now m st)) = timers st"
  "settled (snd (add now m st)) = settled st"
  by (simp_all add: add_def emit_def Let_def)

lemma send_frame:
  "requests (snd (send now m st)) = requests st"
  "timers (snd (send now m st)) = timers st"
  "settled (snd (send now m st)) = settled st"
  by (auto simp: send_def add_frame split: option.splits prod.splits bool.splits)

lemma settlements_append:
  "settled st' = settled st @ [(k, s)] \<Longrightarrow>
   settlements i st' = settlements i st + (if i = k then 1 else 0)"
  by (simp add: settlements_def)

lemma settlements_zero: "i \<notin> fst ` set (settled st) \<Longrightarrow> settlements i st = 0"
  by (auto simp: settlements_def filter_empty_conv)

lemma set_delete: "set (AList.delete k al) = {p \<in> set al. fst p \<noteq> k}"
  by (auto simp: AList.delete_eq)

lemma delete_filter: "AList.delete k al = filter (\<lambda>p. fst p \<noteq> k) al"
  by (induction al) auto

lemma update_fresh: "k \<notin> fst ` set al \<Longrightarrow> AList.update k v al = al @ [(k, v)]"
  by (induction al) auto

lemma request_effect:
  "requests (request i now m p opts st) =
     (requests st)\<lparr>pending := AList.update i
        \<lparr>req_id = i, req_method = m, payload = p,
          req_timeout = (case opt_timeout opts of None \<Rightarrow> 30000 | Some t \<Rightarrow> t),
          req_retry = (case opt_retry opts of None \<Rightarrow> True | Some b \<Rightarrow> b),
          req_timestamp = now\<rparr> (pending (requests st))\<rparr>"
  "timers (request i now m p opts st) =
     (timers st)(i \<mapsto> \<lparr>req_id = i, req_method = m, payload = p,
          req_timeout = (case opt_timeout opts of None \<Rightarrow> 30000 | Some t \<Rightarrow> t),
          req_retry = (case opt_retry opts of None \<Rightarrow> True | Some b \<Rightarrow> b),
          req_timestamp = now\<rparr>)"
  "settled (request i now m p opts st) = settled st"
  by (simp_all add: request_def standard_def json_def send_frame Let_def)

lemma rpc_invD:
  assumes "rpc_inv ids st"
  shows "distinct (map fst (pending (requests st)))"
    and "\<And>k r. (k, r) \<in> set (pending (requests st)) \<Longrightarrow> req_id r = k"
    and "\<And>i r. timers st i = Some r \<Longrightarrow> (i, r) \<in> set (pending (requests st))"
    and "\<And>k r. (k, r) \<in> set (pending (requests st)) \<Longrightarrow> settlements k st = 0"
    and "\<And>i. settlements i st \<le> 1"
    and "\<And>k r. (k, r) \<in> set (pending (requests st)) \<Longrightarrow> k \<in> ids"
    and "\<And>i x. (i, x) \<in> set (settled st) \<Longrightarrow> i \<in> ids"
proof -
  from assms show "distinct (map fst (pending (requests st)))" by (simp add: rpc_inv_def)
  from assms have a: "\<forall>(k, r) \<in> set (pending (requests st)). req_id r = k"
    by (simp add: rpc_inv_def)
  show "req_id r = k" if "(k, r) \<in> set (pending (requests st))" for k r
    using a that by blast
  from assms have b: "\<forall>i r. timers st i = Some r \<longrightarrow> (i, r) \<in> set (pending (requests st))"
    by (simp add: rpc_inv_def)
  show "(i, r) \<in> set (pending (requests st))" if "timers st i = Some r" for i r
    using b that by blast
  from assms have c: "\<forall>i \<in> fst ` set (pending (requests st)). settlements i st = 0"
    by (simp add: rpc_inv_def)
  show "settlements k st = 0" if "(k, r) \<in> set (pending (requests st))" for k r
  proof -
    from that have "k \<in> fst ` set (pending (requests st))" by (rule image_eqI [rotated]) simp
    then show ?thesis by (rule bspec [OF c])
  qed
  from assms show "settlements i st \<le> 1" for i by (simp add: rpc_inv_def)
  from assms have d: "fst ` set (pending (requests st)) \<subseteq> ids" by (simp add: rpc_inv_def)
  show "k \<in> ids" if "(k, r) \<in> set (pending (requests st))" for k r
  proof -
    from that have "k \<in> fst ` set (pending (requests st))" by (rule image_eqI [rotated]) simp
    then show ?thesis by (rule subsetD [OF d])
  qed
  from assms have e: "fst ` set (settled st) \<subseteq> ids" by (simp add: rpc_inv_def)
  show "i \<in> ids" if "(i, x) \<in> set (settled st)" for i x
  proof -
    from that have "i \<in> fst ` set (settled st)" by (rule image_eqI [rotated]) simp
    then show ?thesis by (rule subsetD [OF e])
  qed
qed

lemma rpc_invI:
  assumes "distinct (map fst (pending (requests st)))"
    and "\<And>k r. (k, r) \<in> set (pending (requests st)) \<Longrightarrow> req_id r = k"
    and "\<And>i r. timers st i = Some r \<Longrightarrow> (i, r) \<in> set (pending (requests st))"
    and "\<And>k r. (k, r) \<in> set (pending (requests st)) \<Longrightarrow> settlements k st = 0"
    and "\<And>i. settlements i st \<le> 1"
    and "\<And>k r. (k, r) \<in> set (pending (requests st)) \<Longrightarrow> k \<in> ids"
    and "\<And>i x. (i, x) \<in> set (settled st) \<Longrightarrow> i \<in> ids"
  shows "rpc_inv ids st"
  unfolding rpc_inv_def
proof (intro conjI)
  show "distinct (map fst (pending (requests st)))" by (rule assms(1))
  show "\<forall>(k, r) \<in> set (pending (requests st)). req_id r = k" using assms(2) by blast
  show "\<forall>i r. timers st i = Some r \<longrightarrow> (i, r) \<in> set (pending (requests st))"
    using assms(3) by blast
  show "\<forall>i \<in> fst ` set (pending (requests st)). settlements i st = 0"
    using assms(4) by fastforce
  show "\<forall>i. settlements i st \<le> 1" using assms(5) by blast
  show "fst ` set (pending (requests st)) \<subseteq> ids" using assms(6) by fastforce
  show "fst ` set (settled st) \<subseteq> ids" using assms(7) by fastforce
qed

lemma rpc_inv_request:
  assumes "rpc_inv ids st" and "i \<notin> ids"
  shows "rpc_inv (insert i ids) (request i now m p opts st)"
proof -
  let ?r = "\<lparr>req_id = i, req_method = m, payload = p,
          req_timeout = (case opt_timeout opts of None \<Rightarrow> 30000 | Some t \<Rightarrow> t),
          req_retry = (case opt_retry opts of None \<Rightarrow> True | Some b \<Rightarrow> b),
          req_timestamp = now\<rparr>"
  let ?st' = "request i now m p opts st"
  note D = rpc_invD [OF assms(1)]
  have fresh: "i \<notin> fst ` set (pending (requests st))" using D(6) assms(2) by fastforce
  have fresh': "\<And>x. (i, x) \<notin> set (settled st)" using D(7) assms(2) by blast
  have pe: "pending (requests ?st') = pending (requests st) @ [(i, ?r)]"
    using fresh by (simp add: request_effect update_fresh)
  have te: "timers ?st' = (timers st)(i \<mapsto> ?r)" by (rule request_effect(2))
  have se: "settlements j ?st' = settlements j st" for j
    by (simp add: settlements_def request_effect(3))
  have z: "settlements i st = 0"
    using fresh' by (intro settlements_zero) fastforce
  show ?thesis
  proof (rule rpc_invI)
    show "distinct (map fst (pending (requests ?st')))"
      using D(1) fresh by (simp add: pe)
    show "req_id r = k" if "(k, r) \<in> set (pending (requests ?st'))" for k r
      using that D(2) by (auto simp: pe)
    show "(j, r) \<in> set (pending (requests ?st'))" if "timers ?st' j = Some r" for j r
      using that D(3) by (auto simp: pe te split: if_splits)
    show "settlements k ?st' = 0" if "(k, r) \<in> set (pending (requests ?st'))" for k r
      using that D(4) z by (auto simp: pe se)
    show "settlements j ?st' \<le> 1" for j using D(5) by (simp add: se)
    show "k \<in> insert i ids" if "(k, r) \<in> set (pending (requests ?st'))" for k r
      using that D(6) by (auto simp: pe)
    show "j \<in> insert i ids" if "(j, x) \<in> set (settled ?st')" for j x
      using that D(7) by (auto simp: request_effect(3))
  qed
qed

text \<open>A terminal transition of a pending request.\<close>

lemma rpc_inv_terminal:
  assumes "rpc_inv ids st" and "(k, r) \<in> set (pending (requests st))"
    and p: "pending (requests st') = AList.delete k (pending (requests st))"
    and t: "timers st' = (timers st)(k := None)"
    and s: "settled st' = settled st @ [(k, x)]"
  shows "rpc_inv ids st'"
proof -
  note D = rpc_invD [OF assms(1)]
  have se: "settlements j st' = settlements j st + (if j = k then 1 else 0)" for j
    using s by (rule settlements_append)
  have k0: "settlements k st = 0" using D(4) assms(2) by blast
  have kin: "k \<in> ids" using D(6) assms(2) by blast
  have pm: "(j, q) \<in> set (pending (requests st')) \<longleftrightarrow>
            (j, q) \<in> set (pending (requests st)) \<and> j \<noteq> k" for j q
    by (simp add: p set_delete)
  show ?thesis
  proof (rule rpc_invI)
    show "distinct (map fst (pending (requests st')))"
      using D(1) by (simp add: p AList.distinct_delete)
    show "req_id q = j" if "(j, q) \<in> set (pending (requests st'))" for j q
      using that D(2) pm by blast
    show "(j, q) \<in> set (pending (requests st'))" if "timers st' j = Some q" for j q
    proof -
      from that have "j \<noteq> k" and "timers st j = Some q" by (auto simp: t split: if_splits)
      with D(3) pm show ?thesis by blast
    qed
    show "settlements j st' = 0" if "(j, q) \<in> set (pending (requests st'))" for j q
    proof -
      from that pm have "(j, q) \<in> set (pending (requests st))" and "j \<noteq> k" by blast+
      with D(4) show ?thesis by (simp add: se)
    qed
    show "settlements j st' \<le> 1" for j
      using D(5) [of j] k0 by (simp add: se)
    show "j \<in> ids" if "(j, q) \<in> set (pending (requests st'))" for j q
      using that D(6) pm by blast
    show "j \<in> ids" if "(j, y) \<in> set (settled st')" for j y
      using that D(7) kin by (auto simp: s)
  qed
qed

lemma handleTimeout_effect:
  "pending (requests (handleTimeout r st)) = AList.delete (req_id r) (pending (requests st))"
  "timers (handleTimeout r st) = timers st"
  "settled (handleTimeout r st) =
     settled st @ [(req_id r, Rejected (REQUEST_TIMEOUT (req_method r) (req_timeout r)))]"
  by (simp_all add: handleTimeout_def requests_remove_def settle_def)

lemma cancel_effect:
  "pending (requests (cancel reason r st)) = AList.delete (req_id r) (pending (requests st))"
  "timers (cancel reason r st) = (timers st)(req_id r := None)"
  "settled (cancel reason r st) = settled st @ [(req_id r, Rejected (REQUEST_CANCELLED reason))]"
  by (simp_all add: cancel_def requests_remove_def settle_def clearTimeout_def)

lemma Request_handleResponse_effect:
  "pending (requests (requests_remove r (Request_handleResponse r resp st))) =
     AList.delete (req_id r) (pending (requests st))"
  "timers (requests_remove r (Request_handleResponse r resp st)) = (timers st)(req_id r := None)"
  "settled (requests_remove r (Request_handleResponse r resp st)) =
     settled st @ [(req_id r, if success resp then Resolved (data resp)
                              else Rejected (ResponseError (error resp)))]"
  by (simp_all add: Request_handleResponse_def requests_remove_def settle_def clearTimeout_def Let_def)

lemma rpc_inv_handleResponse:
  assumes "rpc_inv ids st"
  shows "rpc_inv ids (handleResponse resp st)"
proof (cases "map_of (pending (requests st)) (requestId resp)")
  case None
  with assms show ?thesis by (simp add: handleResponse_def)
next
  case (Some r)
  then have m: "(requestId resp, r) \<in> set (pending (requests st))" by (rule map_of_SomeD)
  with rpc_invD(2) [OF assms] have k: "req_id r = requestId resp" by blast
  have "rpc_inv ids (requests_remove r (Request_handleResponse r resp st))"
  proof (rule rpc_inv_terminal [OF assms m])
    show "pending (requests (requests_remove r (Request_handleResponse r resp st))) =
            AList.delete (requestId resp) (pending (requests st))"
      by (simp only: Request_handleResponse_effect k)
    show "timers (requests_remove r (Request_handleResponse r resp st)) =
            (timers st)(requestId resp := None)"
      by (simp only: Request_handleResponse_effect k)
    show "settled (requests_remove r (Request_handleResponse r resp st)) =
            settled st @ [(requestId resp, if success resp then Resolved (data resp)
                              else Rejected (ResponseError (error resp)))]"
      by (simp only: Request_handleResponse_effect k)
  qed
  with Some show ?thesis by (simp add: handleResponse_def)
qed

lemma rpc_inv_timer_fires:
  assumes "rpc_inv ids st"
  shows "rpc_inv ids (timer_fires i st)"
proof (cases "timers st i")
  case None
  with assms show ?thesis by (simp add: timer_fires_def)
next
  case (Some r)
  with rpc_invD(3) [OF assms] have m: "(i, r) \<in> set (pending (requests st))" by blast
  with rpc_invD(2) [OF assms] have k: "req_id r = i" by blast
  let ?st1 = "st\<lparr>timers := (timers st)(i := None)\<rparr>"
  have "rpc_inv ids (handleTimeout r ?st1)"
  proof (rule rpc_inv_terminal [OF assms m])
    show "pending (requests (handleTimeout r ?st1)) = AList.delete i (pending (requests st))"
      by (simp add: handleTimeout_effect k)
    show "timers (handleTimeout r ?st1) = (timers st)(i := None)"
      by (simp add: handleTimeout_effect)
    show "settled (handleTimeout r ?st1) =
            settled st @ [(i, Rejected (REQUEST_TIMEOUT (req_method r) (req_timeout r)))]"
      by (simp add: handleTimeout_effect k)
  qed
  with Some show ?thesis by (simp add: timer_fires_def)
qed

lemma rpc_inv_cancel:
  assumes "rpc_inv ids st" and "(req_id r, r) \<in> set (pending (requests st))"
  shows "rpc_inv ids (cancel reason r st)"
  by (rule rpc_inv_terminal [OF assms]) (simp_all only: cancel_effect)

lemma fold_cancel:
  "rpc_inv ids st \<Longrightarrow> distinct (map req_id rs) \<Longrightarrow>
   \<forall>r\<in>set rs. (req_id r, r) \<in> set (pending (requests st)) \<Longrightarrow>
   rpc_inv ids (fold (cancel reason) rs st) \<and>
   pending (requests (fold (cancel reason) rs st)) =
     filter (\<lambda>p. fst p \<notin> req_id ` set rs) (pending (requests st))"
proof (induction rs arbitrary: st)
  case Nil
  then show ?case by simp
next
  case (Cons r rs)
  let ?st1 = "cancel reason r st"
  have i1: "rpc_inv ids ?st1" using Cons.prems(1,3) by (simp add: rpc_inv_cancel)
  have d: "distinct (map req_id rs)" using Cons.prems(2) by simp
  have "req_id r' \<noteq> req_id r" if "r' \<in> set rs" for r'
    using Cons.prems(2) that by (auto simp: image_iff)
  then have m: "\<forall>r'\<in>set rs. (req_id r', r') \<in> set (pending (requests ?st1))"
    using Cons.prems(3) by (simp add: cancel_effect set_delete)
  from Cons.IH [OF i1 d m]
  have "rpc_inv ids (fold (cancel reason) rs ?st1)"
    and "pending (requests (fold (cancel reason) rs ?st1)) =
           filter (\<lambda>p. fst p \<notin> req_id ` set rs) (pending (requests ?st1))"
    by simp_all
  then show ?case
    by (auto simp: cancel_effect delete_filter intro: filter_cong)
qed

lemma rpc_inv_cancelAll:
  assumes "rpc_inv ids st"
  shows "rpc_inv ids (cancelAll reason st)"
proof -
  let ?rs = "map snd (pending (requests st))"
  have "\<forall>x\<in>set (pending (requests st)). req_id (snd x) = fst x"
    using rpc_invD(2) [OF assms] by auto
  then have ids: "map req_id ?rs = map fst (pending (requests st))"
    by simp
  have d: "distinct (map req_id ?rs)" unfolding ids by (rule rpc_invD(1) [OF assms])
  have m: "\<forall>r\<in>set ?rs. (req_id r, r) \<in> set (pending (requests st))"
    using rpc_invD(2) [OF assms] by auto
  let ?st1 = "fold (cancel reason) ?rs st"
  from fold_cancel [OF assms d m]
  have i1: "rpc_inv ids ?st1"
    and p1: "pending (requests ?st1) =
               filter (\<lambda>p. fst p \<notin> req_id ` set ?rs) (pending (requests st))"
    by simp_all
  have "req_id ` set ?rs = fst ` set (pending (requests st))"
    using ids by (metis list.set_map)
  then have "pending (requests ?st1) = []"
    by (simp add: p1 filter_empty_conv)
  then have "?st1\<lparr>requests := (requests ?st1)\<lparr>pending := []\<rparr>\<rparr> = ?st1" by simp
  with i1 show ?thesis by (simp add: cancelAll_def Let_def)
qed

lemma rpc_inv_run:
  "rpc_inv ids st \<Longrightarrow> distinct (drawn_ids es) \<Longrightarrow> set (drawn_ids es) \<inter> ids = {} \<Longrightarrow>
   rpc_inv (ids \<union> set (drawn_ids es)) (rpc_run es st)"
proof (induction es arbitrary: ids st)
  case Nil
  then show ?case by simp
next
  case (Cons e es)
  show ?case
  proof (cases e)
    case (Call i now m p opts)
    with Cons.prems have f: "i \<notin> ids" and d: "distinct (drawn_ids es)"
      and n: "set (drawn_ids es) \<inter> insert i ids = {}" by auto
    from rpc_inv_request [OF Cons.prems(1) f]
    have "rpc_inv (insert i ids) (request i now m p opts st)" .
    from Cons.IH [OF this d n] Call show ?thesis by simp
  next
    case (Reply resp)
    with Cons.prems have d: "distinct (drawn_ids es)" and n: "set (drawn_ids es) \<inter> ids = {}"
      by auto
    from Cons.IH [OF rpc_inv_handleResponse [OF Cons.prems(1)] d n] Reply
    show ?thesis by simp
  next
    case (TimerFires i)
    with Cons.prems have d: "distinct (drawn_ids es)" and n: "set (drawn_ids es) \<inter> ids = {}"
      by auto
    from Cons.IH [OF rpc_inv_timer_fires [OF Cons.prems(1)] d n] TimerFires
    show ?thesis by simp
  next
    case (CancelAll reason)
    with Cons.prems have d: "distinct (drawn_ids es)" and n: "set (drawn_ids es) \<inter> ids = {}"
      by auto
    from Cons.IH [OF rpc_inv_cancelAll [OF Cons.prems(1)] d n] CancelAll
    show ?thesis by simp
  qed
qed

lemma rpc_inv_new: "rpc_inv {} Starling_new"
  by (simp add: rpc_inv_def Starling_new_def settlements_def)

lemma late_response_dropped:
  "requestId resp = req_id r \<Longrightarrow> handleResponse resp (handleTimeout r st) = handleTimeout r st"
  by (simp add: handleResponse_def handleTimeout_effect AList.delete_conv')

text \<open>
  Claim C1. A request has at most one terminal resolution.
  \<^item> \<open>handleTimeout\<close> rejects the promise with \<open>REQUEST_TIMEOUT\<close> and removes the request
    from \<open>pending\<close>; a response frame with the id of that request that arrives afterwards
    changes nothing: the promise is neither resolved nor rejected, no timer is touched and
    no other callback runs.
  \<^item> Whatever happens to a new client (calls of \<open>request\<close>, each with a new id, response
    frames, timeouts firing, cancellations, in any order), the promise of a request is
    settled at most once.
\<close>

theorem C1_single_terminal_resolution:
  "(requestId resp = req_id r \<longrightarrow>
      handleResponse resp (handleTimeout r st) = handleTimeout r st)
 \<and> settled (handleTimeout r st) =
     settled st @ [(req_id r, Rejected (REQUEST_TIMEOUT (req_method r) (req_timeout r)))]
 \<and> map_of (pending (requests (handleTimeout r st))) (req_id r) = None
 \<and> (distinct (drawn_ids es) \<longrightarrow> settlements i (rpc_run es Starling_new) \<le> 1)"
proof (intro conjI impI)
  assume "requestId resp = req_id r"
  then show "handleResponse resp (handleTimeout r st) = handleTimeout r st"
    by (rule late_response_dropped)
next
  show "settled (handleTimeout r st) =
          settled st @ [(req_id r, Rejected (REQUEST_TIMEOUT (req_method r) (req_timeout r)))]"
    by (rule handleTimeout_effect(3))
next
  show "map_of (pending (requests (handleTimeout r st))) (req_id r) = None"
    by (simp add: handleTimeout_effect(1) AList.delete_conv')
next
  assume "distinct (drawn_ids es)"
  then have "rpc_inv ({} \<union> set (drawn_ids es)) (rpc_run es Starling_new)"
    by (intro rpc_inv_run rpc_inv_new) simp_all
  then show "settlements i (rpc_run es Starling_new) \<le> 1"
    by (rule rpc_invD(5))
qed

text \<open>
  The theorem on a request with a timeout of 50 ms whose timeout fires before the response
  arrives: the promise is rejected with \<open>REQUEST_TIMEOUT\<close>, and that is its only settlement.
\<close>

theorem C1_single_terminal_resolution_witness:
  "(let opts = \<lparr>opt_timeout = Some 50, opt_retry = None\<rparr>;
        st = request ''r1'' 0 ''slow'' (JObj []) opts Starling_new;
        r = \<lparr>req_id = ''r1'', req_method = ''slow'', payload = JObj [], req_timeout = 50,
              req_retry = True, req_timestamp = 0\<rparr>;
        resp = \<lparr>requestId = ''r1'', success = True, data = JNum 1, error = JUndefined\<rparr>;
        es = [Call ''r1'' 0 ''slow'' (JObj []) opts, TimerFires ''r1'', Reply resp]
    in timers st ''r1'' = Some r
     \<and> requestId resp = req_id r
     \<and> handleResponse resp (handleTimeout r st) = handleTimeout r st
     \<and> distinct (drawn_ids es)
     \<and> settled (rpc_run es Starling_new) = [(''r1'', Rejected (REQUEST_TIMEOUT ''slow'' 50))]
     \<and> settlements ''r1'' (rpc_run es Starling_new) \<le> 1)"
  using C1_single_terminal_resolution
    [of "\<lparr>requestId = ''r1'', success = True, data = JNum 1, error = JUndefined\<rparr>"
        "\<lparr>req_id = ''r1'', req_method = ''slow'', payload = JObj [], req_timeout = 50,
              req_retry = True, req_timestamp = 0\<rparr>"
        "request ''r1'' 0 ''slow'' (JObj []) \<lparr>opt_timeout = Some 50, opt_retry = None\<rparr> Starling_new"
        "[Call ''r1'' 0 ''slow'' (JObj []) \<lparr>opt_timeout = Some 50, opt_retry = None\<rparr>, TimerFires ''r1'',
          Reply \<lparr>requestId = ''r1'', success = True, data = JNum 1, error = JUndefined\<rparr>]"
        "''r1''"]
  by (simp add: request_effect Starling_new_def timer_fires_def handleTimeout_effect
        handleTimeout_def requests_remove_def settle_def handleResponse_def)


section \<open>Properties of the routing of notifications\<close>










section \<open>Properties of the reconnection manager\<close>

lemma backoff_chain_append:
  "backoff_chain opts d (xs @ ys) \<longleftrightarrow>
     backoff_chain opts d xs \<and> backoff_chain opts (last (d # xs)) ys"
  by (induction xs arbitrary: d) auto

lemma backoff_chain_nth:
  "backoff_chain opts d ds \<Longrightarrow> k < length ds \<Longrightarrow>
   ds ! k = min ((if k = 0 then d else ds ! (k - 1)) * backoffMultiplier opts) (maxDelay opts)"
proof (induction ds arbitrary: d k)
  case Nil
  then show ?case by simp
next
  case (Cons x xs)
  show ?case
  proof (cases k)
    case 0
    with Cons.prems show ?thesis by simp
  next
    case (Suc j)
    have c: "backoff_chain opts x xs"
      using Cons.prems(1) unfolding backoff_chain.simps by (rule conjunct2)
    from Cons.prems(2) Suc have l: "j < length xs" by simp
    from Cons.IH [OF c l] Suc show ?thesis by (cases j) simp_all
  qed
qed

lemma loop_step_refl: "loop_step m m"
  by (simp add: loop_step_def)

lemma loop_step_same:
  "reconnect_options m' = reconnect_options m \<Longrightarrow> waits m' = waits m \<Longrightarrow>
   currentDelay (reconnect_metrics m') = currentDelay (reconnect_metrics m) \<Longrightarrow>
   length (attemptDurations (reconnect_metrics m')) \<le>
     max 10 (length (attemptDurations (reconnect_metrics m))) \<Longrightarrow>
   loop_step m m'"
  by (auto simp: loop_step_def)

lemma loop_step_trans:
  assumes "loop_step a b" and "loop_step b c"
  shows "loop_step a c"
proof -
  from assms(1) obtain ds where
    ab: "reconnect_options b = reconnect_options a" "waits b = waits a @ ds"
        "backoff_chain (reconnect_options a) (currentDelay (reconnect_metrics a)) ds"
        "currentDelay (reconnect_metrics b) = last (currentDelay (reconnect_metrics a) # ds)"
    by (auto simp: loop_step_def)
  from assms(2) obtain es where
    bc: "reconnect_options c = reconnect_options b" "waits c = waits b @ es"
        "backoff_chain (reconnect_options b) (currentDelay (reconnect_metrics b)) es"
        "currentDelay (reconnect_metrics c) = last (currentDelay (reconnect_metrics b) # es)"
    by (auto simp: loop_step_def)
  have 1: "waits c = waits a @ (ds @ es)" using ab(2) bc(2) by simp
  have 2: "backoff_chain (reconnect_options a) (currentDelay (reconnect_metrics a)) (ds @ es)"
    using ab(1,3,4) bc(3) by (simp add: backoff_chain_append)
  have 3: "currentDelay (reconnect_metrics c) = last (currentDelay (reconnect_metrics a) # (ds @ es))"
    using ab(4) bc(4) by (cases es) simp_all
  have 4: "length (attemptDurations (reconnect_metrics a)) \<le> 10 \<longrightarrow>
           length (attemptDurations (reconnect_metrics c)) \<le> 10"
    using assms by (simp add: loop_step_def)
  show ?thesis unfolding loop_step_def using ab(1) bc(1) 1 2 3 4 by metis
qed

lemma loop_step_arm_wait: "loop_step m (arm_wait m)"
  unfolding loop_step_def
proof (intro conjI)
  show "reconnect_options (arm_wait m) = reconnect_options m"
    by (simp add: arm_wait_def Let_def)
  show "\<exists>ds. waits (arm_wait m) = waits m @ ds \<and>
          backoff_chain (reconnect_options m) (currentDelay (reconnect_metrics m)) ds \<and>
          currentDelay (reconnect_metrics (arm_wait m)) =
            last (currentDelay (reconnect_metrics m) # ds)"
    by (rule exI [of _ "[min (currentDelay (reconnect_metrics m) *
                                backoffMultiplier (reconnect_options m))
                             (maxDelay (reconnect_options m))]"])
       (simp add: arm_wait_def Let_def)
  show "length (attemptDurations (reconnect_metrics m)) \<le> 10 \<longrightarrow>
        length (attemptDurations (reconnect_metrics (arm_wait m))) \<le> 10"
    by (simp add: arm_wait_def Let_def)
qed

lemma loop_step_stop: "loop_step m (stop m)"
  by (rule loop_step_same) (simp_all add: stop_def)

lemma loop_step_on_connected: "loop_step m (on_connected t m)"
  by (rule loop_step_same)
     (auto simp: on_connected_def stop_def Let_def split: option.splits)

lemma loop_step_currentAttempt: "loop_step m m' \<Longrightarrow> loop_step m (m'\<lparr>currentAttempt := b\<rparr>)"
  by (simp add: loop_step_def)

lemma loop_step_schedule:
  "loop_step m (snd (scheduleNextAttempt script m))"
  "loop_step m (snd (attemptReconnection now out rest m))"
proof (induction script m and now out rest m rule: scheduleNextAttempt_attemptReconnection.induct)
  case (1 script m)
  show ?case
  proof (cases "\<not> active m \<or> maxAttempts (reconnect_options m) \<le> enat (attempts' (reconnect_metrics m))")
    case True
    then show ?thesis
      by (auto simp: scheduleNextAttempt.simps loop_step_refl loop_step_stop)
  next
    case False
    then have g: "active m" "\<not> maxAttempts (reconnect_options m) \<le> enat (attempts' (reconnect_metrics m))"
      by simp_all
    show ?thesis
    proof (cases script)
      case Nil
      with g show ?thesis
        by (simp add: scheduleNextAttempt.simps loop_step_arm_wait)
    next
      case (Cons r rest)
      show ?thesis
      proof (cases r)
        case Stopped
        with g Cons show ?thesis
          by (simp add: scheduleNextAttempt.simps
                loop_step_trans [OF loop_step_arm_wait loop_step_stop])
      next
        case (Fires now out)
        show ?thesis
        proof (cases "active (arm_wait m)")
          case True
          from "1.IH" [OF _ _ Cons Fires True] g
          have "loop_step (arm_wait m) (snd (attemptReconnection now out rest (arm_wait m)))"
            by simp
          from loop_step_trans [OF loop_step_arm_wait this] g Cons Fires True
          show ?thesis by (simp add: scheduleNextAttempt.simps)
        next
          case False
          with g Cons Fires show ?thesis
            by (simp add: scheduleNextAttempt.simps loop_step_arm_wait)
        qed
      qed
    qed
  qed
next
  case (2 now out rest m)
  show ?case
  proof (cases "active m")
    case False
    then show ?thesis
      by (simp add: attemptReconnection.simps loop_step_refl)
  next
    case True
    let ?m1 = "m\<lparr>reconnect_metrics := (reconnect_metrics m)
                    \<lparr>attempts' := attempts' (reconnect_metrics m) + 1,
                      totalAttempts := totalAttempts (reconnect_metrics m) + 1,
                      lastAttempt := Some now\<rparr>,
                 currentAttempt := True\<rparr>"
    have s1: "loop_step m ?m1" by (rule loop_step_same) simp_all
    show ?thesis
    proof (cases out)
      case Aborted
      have "loop_step m ((stop ?m1)\<lparr>currentAttempt := False\<rparr>)"
        by (rule loop_step_currentAttempt [OF loop_step_trans [OF s1 loop_step_stop]])
      with True Aborted show ?thesis
        by (simp add: attemptReconnection.simps Let_def)
    next
      case (Opened t)
      have "loop_step m ((on_connected t ?m1)\<lparr>currentAttempt := False\<rparr>)"
        by (rule loop_step_currentAttempt [OF loop_step_trans [OF s1 loop_step_on_connected]])
      with True Opened show ?thesis
        by (simp add: attemptReconnection.simps Let_def)
    next
      case Failed
      let ?m2 = "?m1\<lparr>reconnect_metrics := (reconnect_metrics ?m1)
                      \<lparr>failedAttempts := failedAttempts (reconnect_metrics ?m1) + 1\<rparr>\<rparr>"
      have s2: "loop_step m ?m2" by (rule loop_step_same) simp_all
      from "2.IH" [OF _ refl refl Failed refl] True
      have s3: "loop_step ?m2 (snd (scheduleNextAttempt rest ?m2))" by simp
      obtain fin m3 where r: "scheduleNextAttempt rest ?m2 = (fin, m3)"
        by (cases "scheduleNextAttempt rest ?m2")
      with s3 have "loop_step ?m2 m3" by simp
      from loop_step_trans [OF s2 this]
      have "loop_step m (if fin then m3\<lparr>currentAttempt := False\<rparr> else m3)"
        by (simp add: loop_step_currentAttempt)
      with True Failed r show ?thesis
        by (simp add: attemptReconnection.simps Let_def)
    qed
  qed
qed

lemma first_wait:
  assumes "active m"
    and "\<not> maxAttempts (reconnect_options m) \<le> enat (attempts' (reconnect_metrics m))"
  shows "\<exists>ds. waits (snd (scheduleNextAttempt script m)) =
              waits m @ min (currentDelay (reconnect_metrics m) * backoffMultiplier (reconnect_options m))
                            (maxDelay (reconnect_options m)) # ds"
proof -
  have "loop_step (arm_wait m) (snd (scheduleNextAttempt script m))"
  proof (cases script)
    case Nil
    with assms show ?thesis by (simp add: scheduleNextAttempt.simps loop_step_refl)
  next
    case (Cons r rest)
    show ?thesis
    proof (cases r)
      case Stopped
      with assms Cons show ?thesis by (simp add: scheduleNextAttempt.simps loop_step_stop)
    next
      case (Fires now out)
      with assms Cons show ?thesis
        by (simp add: scheduleNextAttempt.simps loop_step_refl loop_step_schedule(2))
    qed
  qed
  then obtain ds where "waits (snd (scheduleNextAttempt script m)) = waits (arm_wait m) @ ds"
    by (auto simp: loop_step_def)
  then show ?thesis by (simp add: arm_wait_def Let_def)
qed

lemma start_new:
  "start now script (ReconnectionManager_new opts now0) =
     scheduleNextAttempt script
       (resetIfNeeded now ((ReconnectionManager_new opts now0)\<lparr>active := True\<rparr>))"
  "waits (resetIfNeeded now ((ReconnectionManager_new opts now0)\<lparr>active := True\<rparr>)) = []"
  "currentDelay (reconnect_metrics
     (resetIfNeeded now ((ReconnectionManager_new opts now0)\<lparr>active := True\<rparr>))) = minDelay opts"
  "reconnect_options (resetIfNeeded now ((ReconnectionManager_new opts now0)\<lparr>active := True\<rparr>)) = opts"
  "active (resetIfNeeded now ((ReconnectionManager_new opts now0)\<lparr>active := True\<rparr>))"
  "attempts' (reconnect_metrics
     (resetIfNeeded now ((ReconnectionManager_new opts now0)\<lparr>active := True\<rparr>))) = 0"
  by (simp_all add: start_def ReconnectionManager_new_def resetIfNeeded_def initial_metrics_def Let_def)

lemma loop_delays:
  "k < length (drop (length (waits m)) (waits (snd (scheduleNextAttempt script m)))) \<Longrightarrow>
   drop (length (waits m)) (waits (snd (scheduleNextAttempt script m))) ! k =
     min ((if k = 0 then currentDelay (reconnect_metrics m)
           else drop (length (waits m)) (waits (snd (scheduleNextAttempt script m))) ! (k - 1)) *
          backoffMultiplier (reconnect_options m))
         (maxDelay (reconnect_options m))"
proof -
  from loop_step_schedule(1) [of m script] obtain ds where
    w: "waits (snd (scheduleNextAttempt script m)) = waits m @ ds"
    and c: "backoff_chain (reconnect_options m) (currentDelay (reconnect_metrics m)) ds"
    by (auto simp: loop_step_def)
  assume "k < length (drop (length (waits m)) (waits (snd (scheduleNextAttempt script m))))"
  then have "k < length ds" by (simp add: w)
  from backoff_chain_nth [OF c this] show ?thesis by (simp add: w)
qed


lemma start_first_wait:
  assumes "0 < maxAttempts opts"
  shows "waits (snd (start now script (ReconnectionManager_new opts now0))) \<noteq> [] \<and>
         hd (waits (snd (start now script (ReconnectionManager_new opts now0)))) =
           min (minDelay opts * backoffMultiplier opts) (maxDelay opts)"
proof -
  let ?m0 = "resetIfNeeded now ((ReconnectionManager_new opts now0)\<lparr>active := True\<rparr>)"
  from assms have "\<not> maxAttempts opts \<le> enat 0"
    by (cases "maxAttempts opts") (auto simp: zero_enat_def)
  then have n: "\<not> maxAttempts (reconnect_options ?m0) \<le> enat (attempts' (reconnect_metrics ?m0))"
    unfolding start_new(4) start_new(6) .
  from first_wait [OF start_new(5) n, of script] obtain ds where
      "waits (snd (scheduleNextAttempt script ?m0)) =
         waits ?m0 @ min (currentDelay (reconnect_metrics ?m0) * backoffMultiplier (reconnect_options ?m0))
                        (maxDelay (reconnect_options ?m0)) # ds"
    by blast
  then have "waits (snd (start now script (ReconnectionManager_new opts now0))) =
      min (minDelay opts * backoffMultiplier opts) (maxDelay opts) # ds"
    unfolding start_new by simp
  then show ?thesis by simp
qed

lemma start_delays:
  assumes "k < length (waits (snd (start now script (ReconnectionManager_new opts now0))))"
  shows "waits (snd (start now script (ReconnectionManager_new opts now0))) ! k =
           min ((if k = 0 then minDelay opts
                 else waits (snd (start now script (ReconnectionManager_new opts now0))) ! (k - 1)) *
                backoffMultiplier opts)
               (maxDelay opts)"
proof -
  let ?m0 = "resetIfNeeded now ((ReconnectionManager_new opts now0)\<lparr>active := True\<rparr>)"
  have d: "waits (snd (start now script (ReconnectionManager_new opts now0))) =
             drop (length (waits ?m0)) (waits (snd (scheduleNextAttempt script ?m0)))"
    by (simp add: start_new)
  from assms have "k < length (drop (length (waits ?m0)) (waits (snd (scheduleNextAttempt script ?m0))))"
    unfolding d .
  from loop_delays [OF this] show ?thesis
    unfolding d [symmetric] start_new(3) start_new(4) .
qed

text \<open>
  Claim C4. A new manager has \<open>currentDelay = minDelay\<close>. In the scheduling loop the delay
  of each wait is the delay of the wait before it times \<open>backoffMultiplier\<close>, capped at
  \<open>maxDelay\<close>; the multiplication comes before the wait, so the first wait after \<open>start()\<close>
  on a new manager is \<open>min(minDelay * backoffMultiplier, maxDelay)\<close> (and there is a first
  wait whenever \<open>maxAttempts\<close> is positive). The same holds for a loop entered in any state
  \<open>m\<close>, with \<open>currentDelay\<close> of \<open>m\<close> in the place of \<open>minDelay\<close>. The delays are those the loop
  gives to \<open>setTimeout\<close>, whatever the surroundings do in each round (\<open>script\<close>).
\<close>

theorem C4_backoff_delays:
  "currentDelay (reconnect_metrics (ReconnectionManager_new opts now0)) = minDelay opts
 \<and> (let ds = waits (snd (start now script (ReconnectionManager_new opts now0)))
    in (\<forall>k<length ds.
          ds ! k = min ((if k = 0 then minDelay opts else ds ! (k - 1)) * backoffMultiplier opts)
                       (maxDelay opts))
     \<and> (0 < maxAttempts opts \<longrightarrow>
          ds \<noteq> [] \<and> hd ds = min (minDelay opts * backoffMultiplier opts) (maxDelay opts)))
 \<and> (let ds = drop (length (waits m)) (waits (snd (scheduleNextAttempt script m)))
    in \<forall>k<length ds.
         ds ! k = min ((if k = 0 then currentDelay (reconnect_metrics m) else ds ! (k - 1)) *
                       backoffMultiplier (reconnect_options m))
                      (maxDelay (reconnect_options m)))"
proof (intro conjI)
  show "currentDelay (reconnect_metrics (ReconnectionManager_new opts now0)) = minDelay opts"
    by (simp add: ReconnectionManager_new_def initial_metrics_def)
next
  show "let ds = waits (snd (start now script (ReconnectionManager_new opts now0)))
    in (\<forall>k<length ds.
          ds ! k = min ((if k = 0 then minDelay opts else ds ! (k - 1)) * backoffMultiplier opts)
                       (maxDelay opts))
     \<and> (0 < maxAttempts opts \<longrightarrow>
          ds \<noteq> [] \<and> hd ds = min (minDelay opts * backoffMultiplier opts) (maxDelay opts))"
    unfolding Let_def using start_delays [of _ now script opts now0] start_first_wait [of opts now script now0]
    by blast
next
  show "let ds = drop (length (waits m)) (waits (snd (scheduleNextAttempt script m)))
    in \<forall>k<length ds.
         ds ! k = min ((if k = 0 then currentDelay (reconnect_metrics m) else ds ! (k - 1)) *
                       backoffMultiplier (reconnect_options m))
                      (maxDelay (reconnect_options m))"
    unfolding Let_def using loop_delays [of _ m script] by blast
qed

text \<open>
  The theorem with the default options and three failed attempts: the waits are 150, 225,
  337.5 and 506.25 ms, the first of them not \<open>minDelay = 100\<close>.
\<close>

theorem C4_backoff_delays_witness:
  "(let opts = \<lparr>minDelay = 100, maxDelay = 30000, maxAttempts = \<infinity>, backoffMultiplier = 1.5,
                 resetThreshold = 60000\<rparr>;
        script = [Fires 200 Failed, Fires 500 Failed, Fires 900 Failed];
        ds = waits (snd (start 10 script (ReconnectionManager_new opts 0)))
    in 0 < maxAttempts opts
     \<and> ds = [150, 225, 337.5, 506.25]
     \<and> hd ds = min (minDelay opts * backoffMultiplier opts) (maxDelay opts)
     \<and> 1 < length ds
     \<and> ds ! 1 = min (ds ! 0 * backoffMultiplier opts) (maxDelay opts))"
proof -
  let ?opts = "\<lparr>minDelay = 100, maxDelay = 30000, maxAttempts = \<infinity>, backoffMultiplier = 1.5,
                 resetThreshold = 60000\<rparr>"
  let ?script = "[Fires 200 Failed, Fires 500 Failed, Fires 900 Failed]"
  let ?ds = "waits (snd (start 10 ?script (ReconnectionManager_new ?opts 0)))"
  have e: "?ds = [150, 225, 337.5, 506.25]"
    by (simp add: start_def ReconnectionManager_new_def initial_metrics_def resetIfNeeded_def
          scheduleNextAttempt.simps attemptReconnection.simps arm_wait_def Let_def)
  have p: "0 < maxAttempts ?opts" by simp
  have l: "1 < length ?ds" by (simp only: e) simp
  from C4_backoff_delays [of ?opts 0 10 ?script "ReconnectionManager_new ?opts 0"] p l
  have "hd ?ds = min (minDelay ?opts * backoffMultiplier ?opts) (maxDelay ?opts)"
    and "?ds ! 1 = min (?ds ! 0 * backoffMultiplier ?opts) (maxDelay ?opts)"
    unfolding Let_def by (blast, force)
  with e p l show ?thesis unfolding Let_def by blast
qed

lemma foldl_plus: "foldl (\<lambda>a b. a + b) a ds = a + sum_list ds" for a :: int
  by (induction ds arbitrary: a) simp_all

lemma getMetrics_average:
  "averageAttemptDuration (getMetrics m) =
     (if attemptDurations (reconnect_metrics m) = [] then Finite 0
      else Finite (real_of_int (sum_list (attemptDurations (reconnect_metrics m))) /
                   real (length (attemptDurations (reconnect_metrics m)))))"
  by (simp add: getMetrics_def js_divide_def Let_def foldl_plus)

lemma loop_step_bounded:
  "loop_step m m' \<Longrightarrow> length (attemptDurations (reconnect_metrics m)) \<le> 10 \<Longrightarrow>
   length (attemptDurations (reconnect_metrics m')) \<le> 10"
  by (simp add: loop_step_def)

lemma reconnect_step_bounded:
  assumes "length (attemptDurations (reconnect_metrics m)) \<le> 10"
  shows "length (attemptDurations (reconnect_metrics (reconnect_step x m))) \<le> 10"
proof (cases x)
  case (Start now script)
  let ?m0 = "resetIfNeeded now (m\<lparr>active := True\<rparr>)"
  have "length (attemptDurations (reconnect_metrics ?m0)) \<le> 10"
    using assms by (simp add: resetIfNeeded_def Let_def)
  from loop_step_bounded [OF loop_step_schedule(1) this, of script] assms Start
  show ?thesis by (simp add: start_def)
next
  case Stop
  with assms show ?thesis by (simp add: stop_def)
next
  case (ForceAttempt now out rest)
  let ?m0 = "(if currentAttempt m then stop m else m)\<lparr>active := True\<rparr>"
  have "length (attemptDurations (reconnect_metrics ?m0)) \<le> 10"
    using assms by (simp add: stop_def)
  from loop_step_bounded [OF loop_step_schedule(2) this, of now out rest] ForceAttempt
  show ?thesis by (simp add: forceAttempt_def)
next
  case (Reset now)
  then show ?thesis by (simp add: reset_def initial_metrics_def)
next
  case (Connected now)
  from loop_step_bounded [OF loop_step_on_connected assms, of now] Connected
  show ?thesis by simp
qed

lemma reconnect_run_bounded:
  "length (attemptDurations (reconnect_metrics m)) \<le> 10 \<Longrightarrow>
   length (attemptDurations (reconnect_metrics (reconnect_run xs m))) \<le> 10"
  by (induction xs arbitrary: m) (simp_all add: reconnect_step_bounded)

text \<open>
  Claim C10. \<open>getMetrics()\<close> returns \<open>averageAttemptDuration = 0\<close> when no duration is stored,
  and the arithmetic mean of the stored durations otherwise; it is never \<open>NaN\<close>, which is
  what the quotient of the sum by the length is on the empty array, the division that the
  test of the length avoids. At most 10 durations are stored, whatever calls and events
  have reached the manager since its construction.
\<close>

theorem C10_average_attempt_duration:
  "averageAttemptDuration (getMetrics m) =
     (if attemptDurations (reconnect_metrics m) = [] then Finite 0
      else Finite (real_of_int (sum_list (attemptDurations (reconnect_metrics m))) /
                   real (length (attemptDurations (reconnect_metrics m)))))
 \<and> averageAttemptDuration (getMetrics m) \<noteq> NaN
 \<and> js_divide (real_of_int (foldl (\<lambda>a b. a + b) 0 [])) (real (length ([] :: int list))) = NaN
 \<and> length (attemptDurations
       (reconnect_metrics (reconnect_run ops (ReconnectionManager_new opts now0)))) \<le> 10"
proof (intro conjI)
  show "averageAttemptDuration (getMetrics m) =
     (if attemptDurations (reconnect_metrics m) = [] then Finite 0
      else Finite (real_of_int (sum_list (attemptDurations (reconnect_metrics m))) /
                   real (length (attemptDurations (reconnect_metrics m)))))"
    by (rule getMetrics_average)
  show "averageAttemptDuration (getMetrics m) \<noteq> NaN"
    by (simp add: getMetrics_average)
  show "js_divide (real_of_int (foldl (\<lambda>a b. a + b) 0 [])) (real (length ([] :: int list))) = NaN"
    by (simp add: js_divide_def)
  have "length (attemptDurations (reconnect_metrics (ReconnectionManager_new opts now0))) \<le> 10"
    by (simp add: ReconnectionManager_new_def initial_metrics_def)
  then show "length (attemptDurations
       (reconnect_metrics (reconnect_run ops (ReconnectionManager_new opts now0)))) \<le> 10"
    by (rule reconnect_run_bounded)
qed

text \<open>Two reconnections that took 30 and 70 ms: the average is 50; on a new manager it is 0.\<close>

lemma getMetrics_example:
  "(let opts = \<lparr>minDelay = 100, maxDelay = 30000, maxAttempts = \<infinity>, backoffMultiplier = 1.5,
                 resetThreshold = 60000\<rparr>;
        m = reconnect_run [Start 10 [Fires 200 (Opened 230)], Start 1000 [Fires 1200 (Opened 1270)]]
              (ReconnectionManager_new opts 0)
    in attemptDurations (reconnect_metrics m) = [30, 70]
     \<and> averageAttemptDuration (getMetrics m) = Finite 50
     \<and> averageAttemptDuration (getMetrics (ReconnectionManager_new opts 0)) = Finite 0)"
  by (simp add: start_def ReconnectionManager_new_def initial_metrics_def resetIfNeeded_def
        scheduleNextAttempt.simps attemptReconnection.simps arm_wait_def on_connected_def
        stop_def getMetrics_def js_divide_def Let_def)

section \<open>Properties of method registration\<close>

lemma register_all_reservedNames:
  "reservedNames (register_all rs mgr) = reservedNames mgr"
  by (induction rs arbitrary: mgr) (auto simp: methods_add_def split: sum.splits)

lemma methods_add_Inr:
  "methods_add s h opts mgr = Inr (mgr', ev) \<Longrightarrow>
   methods mgr' = (methods mgr)
     (s \<mapsto> \<lparr>name = s, handler = h, timeout = (case opts of None \<Rightarrow> 30000 | Some t \<Rightarrow> t)\<rparr>) \<and>
   namespace s \<notin> reservedNames mgr \<and> reservedNames mgr' = reservedNames mgr"
  by (auto simp: methods_add_def validateMethodName_def split: sum.splits if_splits)

text \<open>No registration stores a name of a reserved namespace.\<close>

lemma register_all_unreserved:
  "(\<And>s. methods mgr s \<noteq> None \<Longrightarrow> namespace s \<notin> reservedNames mgr) \<Longrightarrow>
   methods (register_all rs mgr) s \<noteq> None \<Longrightarrow> namespace s \<notin> reservedNames mgr"
proof (induction rs arbitrary: mgr)
  case Nil
  then show ?case by simp
next
  case (Cons r rs)
  obtain n h opts where r: "r = (n, h, opts)" by (cases r)
  show ?case
  proof (cases "methods_add n h opts mgr")
    case (Inl e)
    with Cons r show ?thesis by simp
  next
    case (Inr p)
    obtain mgr' ev where p: "p = (mgr', ev)" by (cases p)
    from methods_add_Inr [of n h opts mgr mgr' ev] Inr p
    have m: "methods mgr' = (methods mgr)
               (n \<mapsto> \<lparr>name = n, handler = h,
                        timeout = (case opts of None \<Rightarrow> 30000 | Some t \<Rightarrow> t)\<rparr>)"
      and u: "namespace n \<notin> reservedNames mgr"
      and rn: "reservedNames mgr' = reservedNames mgr"
      by simp_all
    have inv: "\<And>s. methods mgr' s \<noteq> None \<Longrightarrow> namespace s \<notin> reservedNames mgr'"
      using Cons.prems(1) m u rn by (auto split: if_splits)
    have "methods (register_all rs mgr') s \<noteq> None"
      using Cons.prems(2) r Inr p by simp
    from Cons.IH [OF inv this] rn show ?thesis by simp
  qed
qed

lemma namespace_length: "length (namespace s) \<le> length s"
  by (simp add: namespace_def length_takeWhile_le)

lemma reserved_namespace_long:
  "namespace s \<in> {''system'', ''internal'', ''stream'', ''helios''} \<Longrightarrow> 6 \<le> length s"
  using namespace_length [of s] by auto

text \<open>
  Claim C8, as the code has it. Take a manager reached from a new one by any registrations,
  and a name whose namespace (the prefix before the first colon, or the whole name) is one
  of \<open>system\<close>, \<open>internal\<close>, \<open>stream\<close>, \<open>helios\<close>. Registration throws: the
  reserved-namespace error when the name matches the name pattern, and the error of the
  pattern check, which comes first, when it does not.
\<close>

theorem C8_reserved_namespace_rejected:
  assumes "namespace s \<in> {''system'', ''internal'', ''stream'', ''helios''}"
  shows "methods_add s h opts (register_all rs MethodsManager_new) =
           Inl (if matches_name_pattern s then NamespaceReserved (namespace s) else BadPattern)"
proof -
  let ?mgr = "register_all rs MethodsManager_new"
  have rn: "reservedNames ?mgr = {''system'', ''internal'', ''stream'', ''helios''}"
    by (simp add: register_all_reservedNames MethodsManager_new_def)
  have len: "6 \<le> length s" using reserved_namespace_long [OF assms] .
  then have ne: "s \<noteq> []" by auto
  have "methods ?mgr s = None"
  proof (rule ccontr)
    assume "methods ?mgr s \<noteq> None"
    from register_all_unreserved [of MethodsManager_new rs s, OF _ this]
    have "namespace s \<notin> reservedNames MethodsManager_new"
      by (simp add: MethodsManager_new_def)
    with assms show False by (simp add: MethodsManager_new_def)
  qed
  with rn len ne assms show ?thesis
    by (simp add: methods_add_def validateMethodName_def)
qed

text \<open>The theorem at \<open>system:x\<close>, on a manager that holds \<open>super:echo\<close>.\<close>

theorem C8_reserved_namespace_rejected_witness:
  "namespace ''system:x'' \<in> {''system'', ''internal'', ''stream'', ''helios''}
 \<and> methods_add ''system:x'' 7 None (register_all [(''super:echo'', 1, None)] MethodsManager_new) =
     Inl (NamespaceReserved ''system'')"
  using C8_reserved_namespace_rejected [of "''system:x''" 7 None "[(''super:echo'', 1, None)]"]
  by (simp add: namespace_def matches_name_pattern_def is_word_char_def is_letter_def)

text \<open>
  The claim as written fails at \<open>system:a-b\<close>: its namespace is \<open>system\<close>, and registration
  throws the error of the pattern check, not the reserved-namespace error.
\<close>

theorem C8_counterexample:
  "namespace ''system:a-b'' \<in> reservedNames MethodsManager_new
 \<and> methods_add ''system:a-b'' 0 None MethodsManager_new = Inl BadPattern
 \<and> methods_add ''system:a-b'' 0 None MethodsManager_new \<noteq>
     Inl (NamespaceReserved (namespace ''system:a-b''))"
  by (simp add: namespace_def MethodsManager_new_def methods_add_def validateMethodName_def
        matches_name_pattern_def is_word_char_def is_letter_def)

text \<open>
  Claim C5, as the code has it. The namespace \<open>starling\<close> is not reserved: on a manager
  reached from a new one by any registrations the reserved namespaces are \<open>system\<close>,
  \<open>internal\<close>, \<open>stream\<close> and \<open>helios\<close>, and a name of the namespace \<open>starling\<close> that
  matches the name pattern and is not registered yet is registered, the manager then
  holding the handler under that name. Such a name is callable as well: \<open>request\<close> checks
  no name, records the request as pending under its id, and the request frame with that
  method name is the last one written on the socket, or the last one in the buffer.
\<close>

theorem C5_starling_namespace_registers:
  assumes "namespace s = ''starling''"
    and "matches_name_pattern s"
    and "methods (register_all rs MethodsManager_new) s = None"
  shows "reservedNames (register_all rs MethodsManager_new) =
           {''system'', ''internal'', ''stream'', ''helios''}
       \<and> methods_add s h opts (register_all rs MethodsManager_new) =
           Inr ((register_all rs MethodsManager_new)
                  \<lparr>methods := (methods (register_all rs MethodsManager_new))
                     (s \<mapsto> \<lparr>name = s, handler = h,
                              timeout = (case opts of None \<Rightarrow> 30000 | Some t \<Rightarrow> t)\<rparr>)\<rparr>,
                s)
       \<and> (let tmo = (case opt_timeout ropts of None \<Rightarrow> 30000 | Some t \<Rightarrow> t);
               rty = (case opt_retry ropts of None \<Rightarrow> True | Some b \<Rightarrow> b);
               frame = Json (createStandardMessage ''request''
                         [(''requestId'', JStr i), (''method'', JStr s), (''payload'', p),
                          (''options'', JObj [(''timeout'', JNum (of_nat tmo)),
                                              (''retry'', JBool rty)])] now);
               st' = request i now s p ropts st
           in map_of (pending (requests st')) i =
                Some \<lparr>req_id = i, req_method = s, payload = p, req_timeout = tmo,
                      req_retry = rty, req_timestamp = now\<rparr>
            \<and> ((\<exists>sock sock'. ws st = Some sock \<and> ws st' = Some sock' \<and>
                    wire sock' = wire sock @ [frame] \<and> retained st' = retained st)
               \<or> retained st' =
                   (if isFull (messageBuffer st) then tl (retained st) else retained st) @
                   [frame]))"
proof -
  let ?mgr = "register_all rs MethodsManager_new"
  have rn: "reservedNames ?mgr = {''system'', ''internal'', ''stream'', ''helios''}"
    by (simp add: register_all_reservedNames MethodsManager_new_def)
  have "length (namespace s) \<le> length s" by (rule namespace_length)
  then have len: "8 \<le> length s" using assms(1) by simp
  then have ne: "s \<noteq> []" by auto
  from rn len ne assms
  have reg: "methods_add s h opts ?mgr =
           Inr (?mgr\<lparr>methods := (methods ?mgr)
                     (s \<mapsto> \<lparr>name = s, handler = h,
                              timeout = (case opts of None \<Rightarrow> 30000 | Some t \<Rightarrow> t)\<rparr>)\<rparr>, s)"
    by (simp add: methods_add_def validateMethodName_def)
  let ?tmo = "case opt_timeout ropts of None \<Rightarrow> 30000 | Some t \<Rightarrow> t"
  let ?rty = "case opt_retry ropts of None \<Rightarrow> True | Some b \<Rightarrow> b"
  let ?r = "\<lparr>req_id = i, req_method = s, payload = p, req_timeout = ?tmo,
             req_retry = ?rty, req_timestamp = now\<rparr>"
  let ?frame = "Json (createStandardMessage ''request''
                   [(''requestId'', JStr i), (''method'', JStr s), (''payload'', p),
                    (''options'', JObj [(''timeout'', JNum (of_nat ?tmo)),
                                        (''retry'', JBool ?rty)])] now)"
  let ?st2 = "st\<lparr>requests := (requests st)\<lparr>pending := AList.update i ?r (pending (requests st))\<rparr>,
                 timers := (timers st)(i \<mapsto> ?r)\<rparr>"
  have pend: "map_of (pending (requests (request i now s p ropts st))) i = Some ?r"
    by (simp add: request_effect AList.update_conv')
  have req: "request i now s p ropts st = snd (send now ?frame ?st2)"
    by (simp add: request_def standard_def json_def Let_def)
  have f: "ws ?st2 = ws st" "retained ?st2 = retained st" "messageBuffer ?st2 = messageBuffer st"
    by (simp_all add: retained_def)
  have "(\<exists>sock sock'. ws ?st2 = Some sock \<and> ws (snd (send now ?frame ?st2)) = Some sock' \<and>
            wire sock' = wire sock @ [?frame] \<and>
            retained (snd (send now ?frame ?st2)) = retained ?st2)
      \<or> retained (snd (send now ?frame ?st2)) =
            (if isFull (messageBuffer ?st2) then tl (retained ?st2) else retained ?st2) @
            [?frame]"
    by (rule send_delivers)
  then have sent: "(\<exists>sock sock'. ws st = Some sock \<and>
            ws (request i now s p ropts st) = Some sock' \<and>
            wire sock' = wire sock @ [?frame] \<and>
            retained (request i now s p ropts st) = retained st)
      \<or> retained (request i now s p ropts st) =
            (if isFull (messageBuffer st) then tl (retained st) else retained st) @ [?frame]"
    unfolding req [symmetric] f .
  from rn reg pend sent show ?thesis unfolding Let_def by (intro conjI)
qed

text \<open>
  The theorem at \<open>starling:getToken\<close>, on a manager that holds \<open>super:echo\<close> and a client
  that is not connected: the name registers, and a request for it is pending and its
  frame buffered.
\<close>

theorem C5_starling_namespace_registers_witness:
  "namespace ''starling:getToken'' = ''starling''
 \<and> matches_name_pattern ''starling:getToken''
 \<and> methods (register_all [(''super:echo'', 1, None)] MethodsManager_new) ''starling:getToken'' = None
 \<and> reservedNames (register_all [(''super:echo'', 1, None)] MethodsManager_new) =
     {''system'', ''internal'', ''stream'', ''helios''}
 \<and> (\<exists>mgr'. methods_add ''starling:getToken'' 7 None
               (register_all [(''super:echo'', 1, None)] MethodsManager_new) =
             Inr (mgr', ''starling:getToken'')
           \<and> methods mgr' ''starling:getToken'' =
               Some \<lparr>name = ''starling:getToken'', handler = 7, timeout = 30000\<rparr>)
 \<and> map_of (pending (requests
       (request ''id-1'' 5 ''starling:getToken'' JUndefined
          \<lparr>opt_timeout = None, opt_retry = None\<rparr> Starling_new))) ''id-1'' =
     Some \<lparr>req_id = ''id-1'', req_method = ''starling:getToken'', payload = JUndefined,
           req_timeout = 30000, req_retry = True, req_timestamp = 5\<rparr>
 \<and> retained (request ''id-1'' 5 ''starling:getToken'' JUndefined
               \<lparr>opt_timeout = None, opt_retry = None\<rparr> Starling_new) =
     [Json (createStandardMessage ''request''
              [(''requestId'', JStr ''id-1''), (''method'', JStr ''starling:getToken''),
               (''payload'', JUndefined),
               (''options'', JObj [(''timeout'', JNum 30000), (''retry'', JBool True)])] 5)]"
proof -
  have h: "namespace ''starling:getToken'' = ''starling''"
    "matches_name_pattern ''starling:getToken''"
    "methods (register_all [(''super:echo'', 1, None)] MethodsManager_new) ''starling:getToken'' = None"
    by (simp_all add: namespace_def matches_name_pattern_def is_word_char_def is_letter_def
          methods_add_def validateMethodName_def MethodsManager_new_def)
  have w: "ws Starling_new = None" "retained Starling_new = []"
    "\<not> isFull (messageBuffer Starling_new)"
    by (simp_all add: Starling_new_def retained_def isFull_def MessageBuffer_new_def)
  from C5_starling_namespace_registers
         [OF h, of 7 None "\<lparr>opt_timeout = None, opt_retry = None\<rparr>" "''id-1''" JUndefined 5
            Starling_new]
  show ?thesis using h w by (simp add: Let_def)
qed

text \<open>
  The claim as written fails at \<open>starling:state\<close>: on a new manager the registration does
  not throw, and the manager then holds the method.
\<close>

theorem C5_counterexample:
  "namespace ''starling:state'' = ''starling''
 \<and> methods_add ''starling:state'' 0 None MethodsManager_new =
     Inr (MethodsManager_new
            \<lparr>methods := [''starling:state'' \<mapsto>
                           \<lparr>name = ''starling:state'', handler = 0, timeout = 30000\<rparr>]\<rparr>,
          ''starling:state'')"
  by (simp add: namespace_def MethodsManager_new_def methods_add_def validateMethodName_def
        matches_name_pattern_def is_word_char_def is_letter_def)

section \<open>Properties of the state refresh\<close>

lemma refresh_attempt_error:
  "refresh_attempt out now st = Inl (e, st') \<Longrightarrow>
   e = RuntimeTypeError \<or> (\<exists>v. e = RequestRejected v)"
  by (auto simp: refresh_attempt_def emitRefreshSuccess_def Let_def
           split: request_outcome.splits sum.splits)

lemma refresh_attempt_requested:
  "refresh_attempt out now st = Inl (e, st') \<Longrightarrow> requested st' = requested st"
  "refresh_attempt out now st = Inr (tok, st') \<Longrightarrow> requested st' = requested st"
  by (auto simp: refresh_attempt_def emitRefreshSuccess_def scheduleNextRefresh_def Let_def
           split: request_outcome.splits sum.splits)

text \<open>The loop throws what an attempt threw, or the \<open>TypeError\<close> of its \<open>catch\<close>.\<close>

lemma refresh_loop_error:
  "refresh_loop env tmo now tries st = (Inl e, st') \<Longrightarrow>
   e = RuntimeTypeError \<or> (\<exists>v. e = RequestRejected v)"
proof (induction env tmo now tries st rule: refresh_loop.induct)
  case (1 env tmo now tries st)
  show ?case
  proof (cases "tries < retryAttempts (state_options st)")
    case False
    with "1.prems" show ?thesis by (simp add: refresh_loop.simps [of env tmo now tries st])
  next
    case True
    let ?st1 = "st\<lparr>requested := requested st @ [(''starling:state'', JNull, tmo)]\<rparr>"
    show ?thesis
    proof (cases "refresh_attempt (env tries) now ?st1")
      case (Inr p)
      with True "1.prems" show ?thesis
        by (simp add: refresh_loop.simps [of env tmo now tries st] split: prod.splits)
    next
      case (Inl p)
      obtain e1 st2 where p: "p = (e1, st2)" by (cases p)
      let ?st3 = "st2\<lparr>state_metrics := (state_metrics st2)
                      \<lparr>refreshFailures := refreshFailures (state_metrics st2) + 1\<rparr>\<rparr>"
      show ?thesis
      proof (cases "message_throws e1")
        case True
        with \<open>tries < retryAttempts (state_options st)\<close> Inl p "1.prems"
        have "e = RuntimeTypeError"
          by (simp add: refresh_loop.simps [of env tmo now tries st])
        then show ?thesis by simp
      next
        case quiet: False
        show ?thesis
        proof (cases "retryAttempts (state_options ?st3) \<le> tries + 1")
          case last: True
          with True quiet Inl p "1.prems" have "e = e1"
            by (simp add: refresh_loop.simps [of env tmo now tries st])
          with refresh_attempt_error Inl p show ?thesis by blast
        next
          case more: False
          with True quiet Inl p "1.prems"
          have "refresh_loop env tmo now (tries + 1) ?st3 = (Inl e, st')"
            by (simp add: refresh_loop.simps [of env tmo now tries st])
          from "1.IH" [OF True refl Inl [unfolded p] refl refl quiet more this]
          show ?thesis .
        qed
      qed
    qed
  qed
qed

text \<open>The loop only adds to the requests made, and makes one when it runs at all.\<close>

lemma refresh_loop_requested:
  "refresh_loop env tmo now tries st = (r, st') \<Longrightarrow>
   length (requested st) \<le> length (requested st') \<and>
   (tries < retryAttempts (state_options st) \<longrightarrow> length (requested st) < length (requested st'))"
proof (induction env tmo now tries st rule: refresh_loop.induct)
  case (1 env tmo now tries st)
  show ?case
  proof (cases "tries < retryAttempts (state_options st)")
    case False
    with "1.prems" show ?thesis by (simp add: refresh_loop.simps [of env tmo now tries st])
  next
    case True
    let ?st1 = "st\<lparr>requested := requested st @ [(''starling:state'', JNull, tmo)]\<rparr>"
    show ?thesis
    proof (cases "refresh_attempt (env tries) now ?st1")
      case (Inr p)
      obtain tok st2 where p: "p = (tok, st2)" by (cases p)
      from refresh_attempt_requested(2) Inr p have "requested st2 = requested ?st1" by blast
      moreover from True Inr p "1.prems" have "st' = st2"
        by (simp add: refresh_loop.simps [of env tmo now tries st])
      ultimately show ?thesis by simp
    next
      case (Inl p)
      obtain e1 st2 where p: "p = (e1, st2)" by (cases p)
      let ?st3 = "st2\<lparr>state_metrics := (state_metrics st2)
                      \<lparr>refreshFailures := refreshFailures (state_metrics st2) + 1\<rparr>\<rparr>"
      from refresh_attempt_requested(1) Inl p have r2: "requested st2 = requested ?st1" by blast
      show ?thesis
      proof (cases "message_throws e1")
        case True
        with \<open>tries < retryAttempts (state_options st)\<close> Inl p "1.prems" have "st' = ?st3"
          by (simp add: refresh_loop.simps [of env tmo now tries st])
        with r2 show ?thesis by simp
      next
        case quiet: False
        show ?thesis
        proof (cases "retryAttempts (state_options ?st3) \<le> tries + 1")
          case last: True
          with True quiet Inl p "1.prems" have "st' = ?st3"
            by (simp add: refresh_loop.simps [of env tmo now tries st])
          with r2 show ?thesis by simp
        next
          case more: False
          with True quiet Inl p "1.prems"
          have "refresh_loop env tmo now (tries + 1) ?st3 = (r, st')"
            by (simp add: refresh_loop.simps [of env tmo now tries st])
          from "1.IH" [OF True refl Inl [unfolded p] refl refl quiet more this] r2
          show ?thesis by simp
        qed
      qed
    qed
  qed
qed

text \<open>
  Claim C7, as the code has it. No refresh is in progress, a refresh has been recorded at
  a time \<open>t\<close> (not 0), and less than \<open>minRefreshInterval\<close> has passed since. Then
  \<^item> a call without \<open>force\<close> rejects with the minimum-interval error and changes nothing:
    no request is made, \<open>token\<close> and \<open>lastRefresh\<close> are as before;
  \<^item> a call with \<open>force\<close> skips the check: it runs the request loop, never rejects with
    the minimum-interval error, and makes a request when \<open>retryAttempts\<close> is positive.
  \<open>env\<close> gives the outcome of each request the loop makes.
\<close>

theorem C7_min_interval_throttle:
  assumes "\<not> refreshing st"
    and "lastRefresh st = Some t"
    and "t \<noteq> 0"
    and "now - t < minRefreshInterval (state_options st)"
  shows "(\<not> force opts \<longrightarrow>
            refresh opts now env st =
              (Inl (MinIntervalNotReached
                     ((minRefreshInterval (state_options st) - (now - t)) div 1000)), st))
       \<and> (force opts \<longrightarrow>
            refresh opts now env st =
              (case refresh_loop env (request_timeout opts) now 0 (st\<lparr>refreshing := True\<rparr>) of
                 (r, st') \<Rightarrow> (r, st'\<lparr>refreshing := False\<rparr>))
          \<and> (\<forall>r. fst (refresh opts now env st) \<noteq> Inl (MinIntervalNotReached r))
          \<and> (0 < retryAttempts (state_options st) \<longrightarrow>
               length (requested st) < length (requested (snd (refresh opts now env st)))))"
proof (cases "force opts")
  case False
  with assms show ?thesis by (simp add: refresh_def min_interval_check_def Let_def)
next
  case True
  obtain r st' where l: "refresh_loop env (request_timeout opts) now 0 (st\<lparr>refreshing := True\<rparr>) = (r, st')"
    by (cases "refresh_loop env (request_timeout opts) now 0 (st\<lparr>refreshing := True\<rparr>)")
  have eq: "refresh opts now env st = (r, st'\<lparr>refreshing := False\<rparr>)"
    using True assms(1,2) l by (simp add: refresh_def min_interval_check_def)
  have "r \<noteq> Inl (MinIntervalNotReached x)" for x
    using refresh_loop_error [of env "request_timeout opts" now 0 "st\<lparr>refreshing := True\<rparr>" _ st'] l
    by auto
  moreover have "0 < retryAttempts (state_options st) \<longrightarrow>
                 length (requested st) < length (requested st')"
    using refresh_loop_requested [OF l] by simp
  ultimately show ?thesis using True eq l by simp
qed

text \<open>
  The theorem one second after a refresh recorded at 1000, with the default options and a
  server whose requests all time out: the plain call is throttled with 59 seconds
  remaining and makes no request; the forced call is not throttled, makes three requests
  and rejects with the error of the last.
\<close>

theorem C7_min_interval_throttle_witness:
  "(let st = (StateManager_new StateManagerOptions_default)
               \<lparr>token := JStr ''TOK'', lastRefresh := Some 1000\<rparr>;
        err = JObj [(''code'', JStr ''REQUEST_TIMEOUT''), (''message'', JStr ''timed out'')];
        env = (\<lambda>k. Rejects err)
    in \<not> refreshing st
     \<and> lastRefresh st = Some 1000
     \<and> 2000 - 1000 < minRefreshInterval (state_options st)
     \<and> refresh \<lparr>force = False, request_timeout = None\<rparr> 2000 env st =
         (Inl (MinIntervalNotReached 59), st)
     \<and> (\<forall>r. fst (refresh \<lparr>force = True, request_timeout = None\<rparr> 2000 env st) \<noteq>
              Inl (MinIntervalNotReached r))
     \<and> length (requested st) <
         length (requested (snd (refresh \<lparr>force = True, request_timeout = None\<rparr> 2000 env st)))
     \<and> fst (refresh \<lparr>force = True, request_timeout = None\<rparr> 2000 env st) =
         Inl (RequestRejected err)
     \<and> length (requested (snd (refresh \<lparr>force = True, request_timeout = None\<rparr> 2000 env st))) = 3)"
proof -
  let ?st = "(StateManager_new StateManagerOptions_default)
               \<lparr>token := JStr ''TOK'', lastRefresh := Some 1000\<rparr>"
  let ?err = "JObj [(''code'', JStr ''REQUEST_TIMEOUT''), (''message'', JStr ''timed out'')]"
  let ?env = "\<lambda>k::nat. Rejects ?err"
  let ?plain = "\<lparr>force = False, request_timeout = None\<rparr>"
  let ?forced = "\<lparr>force = True, request_timeout = None\<rparr>"
  have h: "\<not> refreshing ?st" "lastRefresh ?st = Some 1000" "(1000::int) \<noteq> 0"
    "2000 - 1000 < minRefreshInterval (state_options ?st)"
    by (simp_all add: StateManager_new_def StateManagerOptions_default_def)
  have p: "\<not> force ?plain" and f: "force ?forced" by simp_all
  have n: "0 < retryAttempts (state_options ?st)"
    by (simp add: StateManager_new_def StateManagerOptions_default_def)
  have d: "(minRefreshInterval (state_options ?st) - (2000 - 1000)) div 1000 = 59"
    by (simp add: StateManager_new_def StateManagerOptions_default_def)
  from C7_min_interval_throttle [OF h, of ?plain ?env] p d
  have 1: "refresh ?plain 2000 ?env ?st = (Inl (MinIntervalNotReached 59), ?st)"
    by metis
  from C7_min_interval_throttle [OF h, of ?forced ?env] f n
  have 2: "\<forall>r. fst (refresh ?forced 2000 ?env ?st) \<noteq> Inl (MinIntervalNotReached r)"
    and 3: "length (requested ?st) < length (requested (snd (refresh ?forced 2000 ?env ?st)))"
    by blast+
  have l: "refresh_loop ?env None 2000 0 (?st\<lparr>refreshing := True\<rparr>) =
             (Inl (RequestRejected ?err),
              ?st\<lparr>refreshing := True,
                   state_metrics := (state_metrics ?st)\<lparr>refreshFailures := 3\<rparr>,
                   requested := [(''starling:state'', JNull, None), (''starling:state'', JNull, None),
                                 (''starling:state'', JNull, None)]\<rparr>)"
    by (simp add: refresh_loop.simps refresh_attempt_def message_throws_def
          StateManager_new_def StateManagerOptions_default_def Let_def)
  from C7_min_interval_throttle [OF h, of ?forced ?env] f
  have "refresh ?forced 2000 ?env ?st =
          (case refresh_loop ?env (request_timeout ?forced) 2000 0 (?st\<lparr>refreshing := True\<rparr>) of
             (r, st') \<Rightarrow> (r, st'\<lparr>refreshing := False\<rparr>))"
    by blast
  then have 4: "fst (refresh ?forced 2000 ?env ?st) = Inl (RequestRejected ?err)"
    and 5: "length (requested (snd (refresh ?forced 2000 ?env ?st))) = 3"
    by (simp_all add: l)
  from h(1,2,4) 1 2 3 4 5 show ?thesis unfolding Let_def by blast
qed

text \<open>
  A request rejected with \<open>undefined\<close> (a failure response without an \<open>error\<close> field) ends
  the loop at once: the \<open>catch\<close> counts the failure and throws on \<open>error.message\<close>, so one
  request is made and the call rejects with a \<open>TypeError\<close>.
\<close>

lemma refresh_rejected_with_undefined:
  "refresh \<lparr>force = True, request_timeout = None\<rparr> 2000 (\<lambda>k. Rejects JUndefined)
     (StateManager_new StateManagerOptions_default) =
   (Inl RuntimeTypeError,
    (StateManager_new StateManagerOptions_default)
      \<lparr>state_metrics := (state_metrics (StateManager_new StateManagerOptions_default))
                          \<lparr>refreshFailures := 1\<rparr>,
       requested := [(''starling:state'', JNull, None)]\<rparr>)"
  by (simp add: refresh_def min_interval_check_def refresh_loop.simps refresh_attempt_def
        message_throws_def StateManager_new_def StateManagerOptions_default_def Let_def)

text \<open>
  The claim as written fails while a refresh is in progress: the call is made without
  \<open>force\<close>, one second after a refresh recorded at 1000, and it rejects with the
  in-progress error, not with the minimum-interval error.
\<close>

theorem C7_counterexample:
  "(let st = (StateManager_new StateManagerOptions_default)
               \<lparr>token := JStr ''TOK'', lastRefresh := Some 1000, refreshing := True\<rparr>
    in lastRefresh st = Some 1000
     \<and> 2000 - 1000 < minRefreshInterval (state_options st)
     \<and> refresh \<lparr>force = False, request_timeout = None\<rparr> 2000
           (\<lambda>k. Resolves (JObj [(''token'', JStr ''NEW'')])) st =
         (Inl RefreshInProgress, st)
     \<and> fst (refresh \<lparr>force = False, request_timeout = None\<rparr> 2000
                (\<lambda>k. Resolves (JObj [(''token'', JStr ''NEW'')])) st) \<noteq>
         Inl (MinIntervalNotReached 59))"
  by (simp add: refresh_def StateManager_new_def StateManagerOptions_default_def)

lemma refresh_attempt_throws: "\<exists>e st'. refresh_attempt out now st = Inl (e, st')"
  by (simp add: refresh_attempt_def emitRefreshSuccess_def Let_def
           split: request_outcome.splits sum.splits)

lemma refresh_loop_returns:
  "refresh_loop env tmo now tries st = (Inr v, st') \<Longrightarrow>
   v = JUndefined \<and> retryAttempts (state_options st) \<le> tries"
proof (induction env tmo now tries st rule: refresh_loop.induct)
  case (1 env tmo now tries st)
  show ?case
  proof (cases "tries < retryAttempts (state_options st)")
    case False
    with "1.prems" show ?thesis by (simp add: refresh_loop.simps [of env tmo now tries st])
  next
    case True
    let ?st1 = "st\<lparr>requested := requested st @ [(''starling:state'', JNull, tmo)]\<rparr>"
    from refresh_attempt_throws [of "env tries" now ?st1] obtain e1 st2 where
      a: "refresh_attempt (env tries) now ?st1 = Inl (e1, st2)" by blast
    let ?st3 = "st2\<lparr>state_metrics := (state_metrics st2)
                    \<lparr>refreshFailures := refreshFailures (state_metrics st2) + 1\<rparr>\<rparr>"
    show ?thesis
    proof (cases "message_throws e1")
      case True
      with \<open>tries < retryAttempts (state_options st)\<close> a "1.prems" show ?thesis
        by (simp add: refresh_loop.simps [of env tmo now tries st])
    next
      case quiet: False
      show ?thesis
      proof (cases "retryAttempts (state_options ?st3) \<le> tries + 1")
        case last: True
        with True quiet a "1.prems" show ?thesis
          by (simp add: refresh_loop.simps [of env tmo now tries st])
      next
        case more: False
        with True quiet a "1.prems"
        have r: "refresh_loop env tmo now (tries + 1) ?st3 = (Inr v, st')"
          by (simp add: refresh_loop.simps [of env tmo now tries st])
        from "1.IH" [OF True refl a refl refl quiet more r]
        have "retryAttempts (state_options ?st3) \<le> tries + 1" by simp
        with more show ?thesis by simp
      qed
    qed
  qed
qed

text \<open>
  Beyond the claims: with \<open>retryAttempts\<close> positive, the promise of \<open>refresh\<close> is never
  fulfilled. After a request has resolved, \<open>token\<close> and \<open>lastRefresh\<close> are stored and the next
  refresh is scheduled, and then \<open>_emitRefreshSuccess\<close> throws; the \<open>catch\<close> counts a failure
  and the loop goes on, until the last attempt rethrows or the \<open>catch\<close> itself throws.
\<close>

theorem refresh_always_rejects:
  assumes "0 < retryAttempts (state_options st)"
  shows "\<exists>e. fst (refresh opts now env st) = Inl e"
proof (cases "fst (refresh opts now env st)")
  case (Inl e)
  then show ?thesis by blast
next
  case (Inr v)
  obtain r st' where l: "refresh_loop env (request_timeout opts) now 0 (st\<lparr>refreshing := True\<rparr>) = (r, st')"
    by (cases "refresh_loop env (request_timeout opts) now 0 (st\<lparr>refreshing := True\<rparr>)")
  from Inr have "r = Inr v"
    using l by (auto simp: refresh_def split: if_splits option.splits)
  with l refresh_loop_returns [of env "request_timeout opts" now 0 "st\<lparr>refreshing := True\<rparr>" v st']
  have "retryAttempts (state_options st) \<le> 0" by simp
  with assms show ?thesis by simp
qed

text \<open>
  The theorem with the default options and a server that answers every request with the
  token \<open>TOK\<close>: three requests are made, the token is stored, and the call rejects.
\<close>

theorem refresh_always_rejects_witness:
  "(let st = StateManager_new StateManagerOptions_default;
        env = (\<lambda>k. Resolves (JObj [(''token'', JStr ''TOK'')]));
        res = refresh \<lparr>force = False, request_timeout = None\<rparr> 5000 env st
    in 0 < retryAttempts (state_options st)
     \<and> fst res = Inl RuntimeTypeError
     \<and> token (snd res) = JStr ''TOK''
     \<and> lastRefresh (snd res) = Some 5000
     \<and> length (requested (snd res)) = 3
     \<and> refreshFailures (state_metrics (snd res)) = 3)"
proof -
  let ?st = "StateManager_new StateManagerOptions_default"
  let ?env = "\<lambda>k::nat. Resolves (JObj [(''token'', JStr ''TOK'')])"
  let ?res = "refresh \<lparr>force = False, request_timeout = None\<rparr> 5000 ?env ?st"
  have p: "0 < retryAttempts (state_options ?st)"
    by (simp add: StateManager_new_def StateManagerOptions_default_def)
  from refresh_always_rejects [OF p, of "\<lparr>force = False, request_timeout = None\<rparr>" 5000 ?env]
  obtain e where "fst ?res = Inl e" by blast
  moreover have "?res = (Inl RuntimeTypeError,
      ?st\<lparr>token := JStr ''TOK'', lastRefresh := Some 5000,
           refreshTimer := Some (5 * 60 * 1000),
           state_metrics := (state_metrics ?st)\<lparr>refreshes := 3, refreshFailures := 3\<rparr>,
           requested := [(''starling:state'', JNull, None), (''starling:state'', JNull, None),
                         (''starling:state'', JNull, None)]\<rparr>)"
    by (simp add: refresh_def min_interval_check_def refresh_loop.simps refresh_attempt_def
          scheduleNextRefresh_def emitRefreshSuccess_def message_throws_def StateManager_new_def
          StateManagerOptions_default_def Let_def)
  ultimately show ?thesis using p unfolding Let_def by simp
qed

end
